theory Spec2Isabelle
  imports Complex_Main "HOL-Library.Multiset" "HOL-Library.Sublist"
begin

section \<open>SMS spam classification by logistic regression\<close>

text \<open>
  A shallow embedding of the notebook \<^verbatim>\<open>sms_classify.ipynb\<close>. A message is the list
  of its Unicode code points; a label, which is only compared with \<^verbatim>\<open>'spam'\<close>, and a
  printed answer are lists of characters. NumPy vectors are lists, a matrix is the list
  of its rows; floating-point numbers are modelled by the reals, so every statement
  below is about exact arithmetic. Exceptions are values of the type \<open>error\<close>, returned
  on the left of a sum.
\<close>

datatype error =
    ValueError
  | IndexError
  | DimensionMismatch string nat nat
  | InvalidConfiguration

subsection \<open>Cell 1: label encoding\<close>

text \<open>
  \<^verbatim>\<open>y = np.array([l == 'spam' for l in labels]).astype('int')\<close>

  The comprehension yields one boolean per label; \<^verbatim>\<open>astype('int')\<close> turns \<^verbatim>\<open>True\<close>
  into 1 and \<^verbatim>\<open>False\<close> into 0.
\<close>

definition astype_int :: "bool \<Rightarrow> int" where
  "astype_int b = (if b then 1 else 0)"

definition encode_labels :: "string list \<Rightarrow> int list" where
  "encode_labels labels = map astype_int (map (\<lambda>l. l = ''spam'') labels)"

subsection \<open>Cell 1: the text normalizer\<close>

text \<open>
  A message is a Python string: the list of its Unicode code points, each a natural
  number. \<open>py\<close> turns a literal of ASCII characters into such a string. \<open>$\<close> is code
  point 0x24, the pound sign 0xA3, the colon 0x3A and the slash 0x2F.
\<close>

type_synonym pystr = "nat list"

definition py :: "string \<Rightarrow> pystr" where
  "py s = map of_char s"

text \<open>
  \<^verbatim>\<open>doc = re.sub('[\<pounds>$]', ' __currency__ ', doc)\<close>: every character of the class is
  replaced by the token.
\<close>

definition currency_token :: pystr where
  "currency_token = py '' __currency__ ''"

definition url_token :: pystr where
  "url_token = py '' __url__ ''"

definition is_currency :: "nat \<Rightarrow> bool" where
  "is_currency c = (c = 0xA3 \<or> c = 0x24)"

definition sub_currency :: "pystr \<Rightarrow> pystr" where
  "sub_currency doc = concat (map (\<lambda>c. if is_currency c then currency_token else [c]) doc)"

text \<open>
  \<^verbatim>\<open>doc = re.sub('\://', ' __url__ ', doc)\<close>: the text is scanned from the left; where
  the three characters \<open>://\<close> start, the token is emitted and the scan goes on behind
  them, otherwise one character is copied.
\<close>

fun sub_url :: "pystr \<Rightarrow> pystr" where
  "sub_url (a # b # c # doc) =
     (if a = 0x3A \<and> b = 0x2F \<and> c = 0x2F
      then url_token @ sub_url doc
      else a # sub_url (b # c # doc))"
| "sub_url doc = doc"

text \<open>
  \<^verbatim>\<open>doc = doc.lower()\<close>: \<^verbatim>\<open>str.lower\<close> replaces every character by its lower-case
  form, which is one code point or several.

  Below U+0100 the upper-case letters are \<open>A\<close> to \<open>Z\<close> (0x41 to 0x5A) and 0xC0 to 0xDE
  without the multiplication sign 0xD7; the lower-case form of each is the code point
  32 above it, and every other code point below U+0100 is its own lower-case form.

  Beyond U+00FF Unicode has upper-case letters (category Lu, \<^verbatim>\<open>str.isupper\<close> is true)
  that have no lower-case form and are their own: among them the double-struck
  capitals U+2102, U+210D, U+2115, U+2119, U+211A, U+211D, U+2124 and the mathematical
  bold capitals U+1D400 to U+1D419, which \<open>upper_without_lower\<close> lists.

  The lower-case forms of all other code points are Unicode's table, which the model
  takes as given: \<open>tbl left c right\<close> is the form of \<open>c\<close> where it stands between the
  texts \<open>left\<close> and \<open>right\<close> (the form of capital sigma depends on its neighbours).
\<close>

type_synonym lowering = "pystr \<Rightarrow> nat \<Rightarrow> pystr \<Rightarrow> pystr"

definition latin1_upper :: "nat \<Rightarrow> bool" where
  "latin1_upper c = ((0x41 \<le> c \<and> c \<le> 0x5A) \<or> (0xC0 \<le> c \<and> c \<le> 0xDE \<and> c \<noteq> 0xD7))"

definition upper_without_lower :: "nat \<Rightarrow> bool" where
  "upper_without_lower c =
     (c \<in> {0x2102, 0x210D, 0x2115, 0x2119, 0x211A, 0x211D, 0x2124}
      \<or> (0x1D400 \<le> c \<and> c \<le> 0x1D419))"

definition lower_char :: "lowering \<Rightarrow> pystr \<Rightarrow> nat \<Rightarrow> pystr \<Rightarrow> pystr" where
  "lower_char tbl left c right =
     (if c < 0x100 then [if latin1_upper c then c + 32 else c]
      else if upper_without_lower c then [c]
      else tbl left c right)"

text \<open>
  \<open>lower_ctx tbl left doc right\<close> is the lower-case form of the text \<open>doc\<close> where it
  stands between \<open>left\<close> and \<open>right\<close>; \<^verbatim>\<open>doc.lower()\<close> is that of the whole string.
\<close>

fun lower_ctx :: "lowering \<Rightarrow> pystr \<Rightarrow> pystr \<Rightarrow> pystr \<Rightarrow> pystr" where
  "lower_ctx tbl left [] right = []"
| "lower_ctx tbl left (c # doc) right =
     lower_char tbl left c (doc @ right) @ lower_ctx tbl (left @ [c]) doc right"

definition lower :: "lowering \<Rightarrow> pystr \<Rightarrow> pystr" where
  "lower tbl doc = lower_ctx tbl [] doc []"

text \<open>
  What the model assumes of Unicode's table beyond U+00FF: a lower-case form is not
  empty, holds none of the four characters \<open>:\<close>, \<open>/\<close>, \<open>$\<close> and the pound sign, and each
  of its characters is its own lower-case form wherever it stands. The table that
  changes nothing is one such table; it stands in where a closed statement needs a
  table that is never consulted.
\<close>

definition lowering_ok :: "lowering \<Rightarrow> bool" where
  "lowering_ok tbl =
     (\<forall>left c right. 0x100 \<le> c \<longrightarrow>
        tbl left c right \<noteq> []
        \<and> (\<forall>d\<in>set (tbl left c right).
              d \<noteq> 0x3A \<and> d \<noteq> 0x2F \<and> \<not> is_currency d
              \<and> (\<forall>l r. lower_char tbl l d r = [d])))"

definition identity_lowering :: lowering where
  "identity_lowering left c right = [c]"

text \<open>
  \<^verbatim>\<open>
  def preprocess(doc):
      doc = re.sub('[\<pounds>$]', ' __currency__ ', doc)
      doc = re.sub('\://', ' __url__ ', doc)
      doc = doc.lower() # convert to lower
      return doc
  \<close>
\<close>

definition preprocess :: "lowering \<Rightarrow> pystr \<Rightarrow> pystr" where
  "preprocess tbl doc = lower tbl (sub_url (sub_currency doc))"

subsection \<open>Cell 1: the vectorizer and the design matrix\<close>

text \<open>
  \<^verbatim>\<open>vectorizer = CountVectorizer(max_features=numFeatures, preprocessor=preprocess)\<close>

  The fitted vectorizer is scikit-learn's: it is given by its token splitter and by its
  dictionary, the ordered list of tokens. \<^verbatim>\<open>transform\<close> preprocesses a document,
  splits it into tokens and counts, for each dictionary token in order, how often the
  token occurs; \<^verbatim>\<open>toarray()\<close> gives the counts as a dense matrix, one row per document.
\<close>

record vectorizer =
  tokenize :: "pystr \<Rightarrow> pystr list"
  vocabulary :: "pystr list"

definition count_vector :: "pystr list \<Rightarrow> pystr list \<Rightarrow> int list" where
  "count_vector vocab toks = map (\<lambda>w. int (count_list toks w)) vocab"

definition transform :: "lowering \<Rightarrow> vectorizer \<Rightarrow> pystr list \<Rightarrow> int list list" where
  "transform tbl v docs =
     map (\<lambda>d. count_vector (vocabulary v) (tokenize v (preprocess tbl d))) docs"

text \<open>
  \<^verbatim>\<open>X = X.toarray(); m,n = X.shape; X = np.column_stack([np.ones(m), X])\<close>:
  a column of ones is put in front of the counts.
\<close>

definition design_matrix :: "lowering \<Rightarrow> vectorizer \<Rightarrow> pystr list \<Rightarrow> real list list" where
  "design_matrix tbl v docs = map (\<lambda>row. 1 # map real_of_int row) (transform tbl v docs)"

text \<open>
  \<^verbatim>\<open>np.insert(x, 0, 1)\<close> without an axis flattens the matrix \<open>x\<close> and puts the value in
  front of its entries.
\<close>

definition np_insert0 :: "int list list \<Rightarrow> int \<Rightarrow> int list" where
  "np_insert0 x val = val # concat x"

text \<open>
  \<^verbatim>\<open>
  def extract_features(msg):
      x = vectorizer.transform([msg]).toarray()
      x = np.insert(x, 0, 1)
      return x
  \<close>
\<close>

definition extract_features :: "lowering \<Rightarrow> vectorizer \<Rightarrow> pystr \<Rightarrow> int list" where
  "extract_features tbl v msg = np_insert0 (transform tbl v [msg]) 1"

subsection \<open>Cell 1: balancing, shuffling and splitting\<close>

text \<open>
  \<^verbatim>\<open>np.nonzero(flags)[0]\<close> lists the indices at which the flag is set, in increasing order:
  \<^verbatim>\<open>pos = np.nonzero(y == 1)[0]\<close>, \<^verbatim>\<open>neg = np.nonzero(y == 0)[0]\<close>.
\<close>

definition nonzero :: "bool list \<Rightarrow> nat list" where
  "nonzero flags = filter (\<lambda>i. flags ! i) [0..<length flags]"

definition pos :: "int list \<Rightarrow> nat list" where
  "pos y = nonzero (map (\<lambda>l. l = 1) y)"

definition neg :: "int list \<Rightarrow> nat list" where
  "neg y = nonzero (map (\<lambda>l. l = 0) y)"

text \<open>
  \<^verbatim>\<open>subset = np.concatenate([pos, neg[0:len(pos)] ])\<close>: a slice that reaches past the end
  of \<open>neg\<close> is cut off at the end.
\<close>

definition subset_idx :: "int list \<Rightarrow> nat list" where
  "subset_idx y = pos y @ take (length (pos y)) (neg y)"

text \<open>
  NumPy's global generator: \<^verbatim>\<open>np.random.seed(1)\<close> sets its state,
  \<^verbatim>\<open>np.random.shuffle(subset)\<close> reorders the array from the state and advances the
  state. Both are the library's; the model takes them as given.
\<close>

record 's np_random =
  seed :: "nat \<Rightarrow> 's"
  shuffle :: "'s \<Rightarrow> nat list \<Rightarrow> nat list \<times> 's"

definition permuting :: "'s np_random \<Rightarrow> bool" where
  "permuting G = (\<forall>s xs. mset (fst (shuffle G s xs)) = mset xs)"

text \<open>
  Indexing an array with an array of indices, \<^verbatim>\<open>X[subset,:]\<close> and \<^verbatim>\<open>y[subset]\<close>:
  the rows at the indices, in the order of the indices; an index past the end raises
  \<^verbatim>\<open>IndexError\<close>.
\<close>

definition take_rows :: "'a list \<Rightarrow> nat list \<Rightarrow> error + 'a list" where
  "take_rows A idx =
     (if list_all (\<lambda>i. i < length A) idx then Inr (map (\<lambda>i. A ! i) idx) else Inl IndexError)"

record 'a dataset =
  X_train :: "'a list"
  y_train :: "int list"
  X_test :: "'a list"
  y_test :: "int list"

text \<open>
  The split of the shuffled rows \<open>X\<close> and labels \<open>y\<close>:
  \<^verbatim>\<open>
  train = np.arange(numTrain)
  test  = numTrain + np.arange(numTest)
  X_train = X[train,:]
  y_train = y[train]
  X_test  = X[test,:]
  y_test  = y[test]
  \<close>
\<close>

definition split_rows :: "'a list \<Rightarrow> int list \<Rightarrow> nat \<Rightarrow> nat \<Rightarrow> error + 'a dataset" where
  "split_rows X y numTrain numTest =
     (let train = [0..<numTrain];
          test = map (\<lambda>i. numTrain + i) [0..<numTest]
      in case take_rows X train of Inl e \<Rightarrow> Inl e | Inr Xtr \<Rightarrow>
         case take_rows y train of Inl e \<Rightarrow> Inl e | Inr ytr \<Rightarrow>
         case take_rows X test of Inl e \<Rightarrow> Inl e | Inr Xte \<Rightarrow>
         case take_rows y test of Inl e \<Rightarrow> Inl e | Inr yte \<Rightarrow>
           Inr \<lparr>X_train = Xtr, y_train = ytr, X_test = Xte, y_test = yte\<rparr>)"

text \<open>
  The whole step, from the seed to the split:
  \<^verbatim>\<open>
  np.random.seed(1)
  ...
  subset = np.concatenate([pos, neg[0:len(pos)] ])
  np.random.shuffle(subset)
  X = X[subset,:]
  y = y[subset]
  \<close>
  and the split above. Nothing between the seed and the shuffle draws from the
  generator.
\<close>

definition shape_dataset ::
  "'s np_random \<Rightarrow> 'a list \<Rightarrow> int list \<Rightarrow> nat \<Rightarrow> nat \<Rightarrow> error + 'a dataset" where
  "shape_dataset G X y numTrain numTest =
     (let shuffled = fst (shuffle G (seed G 1) (subset_idx y))
      in case take_rows X shuffled of Inl e \<Rightarrow> Inl e | Inr X' \<Rightarrow>
         case take_rows y shuffled of Inl e \<Rightarrow> Inl e | Inr y' \<Rightarrow>
           split_rows X' y' numTrain numTest)"

subsection \<open>The engine imported from \<^verbatim>\<open>logistic_regression\<close>\<close>

text \<open>
  \<^verbatim>\<open>from logistic_regression import logistic, cost_function, gradient_descent\<close>

  The module is not among the sources: the notebook only imports and calls it. Its three
  functions are modelled from the specification, over the reals. The arithmetic of
  vectors and matrices comes first: the inner product (the value of \<^verbatim>\<open>np.dot\<close> on two
  vectors of one length), a matrix times a vector, the transpose of a matrix with \<open>k\<close>
  columns, the difference of two vectors and a multiple of a vector.
\<close>

fun dot :: "real list \<Rightarrow> real list \<Rightarrow> real" where
  "dot (a # as) (b # bs) = a * b + dot as bs"
| "dot _ _ = 0"

definition mat_vec :: "real list list \<Rightarrow> real list \<Rightarrow> real list" where
  "mat_vec A v = map (\<lambda>row. dot row v) A"

definition column :: "real list list \<Rightarrow> nat \<Rightarrow> real list" where
  "column A j = map (\<lambda>row. row ! j) A"

definition transpose_cols :: "real list list \<Rightarrow> nat \<Rightarrow> real list list" where
  "transpose_cols A k = map (column A) [0..<k]"

definition vsub :: "real list \<Rightarrow> real list \<Rightarrow> real list" where
  "vsub u v = map2 (-) u v"

definition scale :: "real \<Rightarrow> real list \<Rightarrow> real list" where
  "scale c v = map ((*) c) v"

text \<open>
  Modelled from the spec: \<^verbatim>\<open>logistic\<close> of the absent module
  \<^verbatim>\<open>logistic_regression\<close>, the hypothesis function of section 4.1,
  \<^verbatim>\<open>1 / (1 + exp(-z))\<close>.
\<close>

definition logistic :: "real \<Rightarrow> real" where
  "logistic z = 1 / (1 + exp (- z))"

text \<open>
  Modelled from the spec: the vector \<open>h\<close> of section 4.2, the hypothesis applied
  elementwise to the linear scores \<open>X \<bullet> theta\<close>, one per example.
\<close>

definition hypothesis :: "real list list \<Rightarrow> real list \<Rightarrow> real list" where
  "hypothesis X theta = map logistic (mat_vec X theta)"

text \<open>
  Modelled from the spec: the cost of section 4.2, which the absent \<^verbatim>\<open>cost_function\<close>
  computes for an \<open>m\<close> by \<open>k\<close> matrix \<open>X\<close>, labels \<open>y\<close> of length \<open>m\<close> and \<open>theta\<close> of
  length \<open>k\<close>: \<^verbatim>\<open>J = -(1/m) * sum_i [ y_i * log(h_i) + (1-y_i) * log(1-h_i) ]\<close>.
\<close>

definition cost :: "real list list \<Rightarrow> real list \<Rightarrow> real list \<Rightarrow> real" where
  "cost X y theta =
     (let m = real (length X);
          h = hypothesis X theta
      in - (1 / m) * sum_list (map2 (\<lambda>yi hi. yi * ln hi + (1 - yi) * ln (1 - hi)) y h))"

text \<open>
  Modelled from the spec: the gradient of section 4.2, \<^verbatim>\<open>grad = (1/m) * X^T . (h - y)\<close>.
  The number \<open>k\<close> of columns is read off \<open>theta\<close>, which has one entry per column.
\<close>

definition gradient :: "real list list \<Rightarrow> real list \<Rightarrow> real list \<Rightarrow> real list" where
  "gradient X y theta =
     (let m = real (length X);
          h = hypothesis X theta
      in scale (1 / m) (mat_vec (transpose_cols X (length theta)) (vsub h y)))"

text \<open>
  The summand of the cost as a function of the label and of the linear score; it serves
  the proofs about the cost.
\<close>

definition loglik :: "real \<Rightarrow> real \<Rightarrow> real" where
  "loglik y u = y * ln (logistic u) + (1 - y) * ln (1 - logistic u)"

text \<open>
  Modelled from the spec: \<^verbatim>\<open>cost_function\<close> of the absent module
  \<^verbatim>\<open>logistic_regression\<close>, section 4.2: it returns the cost and the gradient.
\<close>

definition cost_function :: "real list list \<Rightarrow> real list \<Rightarrow> real list \<Rightarrow> real \<times> real list" where
  "cost_function X y theta = (cost X y theta, gradient X y theta)"

text \<open>
  Modelled from the spec: the loop of the absent \<^verbatim>\<open>gradient_descent\<close>, section 4.3. Each
  of the remaining iterations computes cost and gradient at the current \<open>theta\<close>,
  appends the cost (the one at the \<open>theta\<close> before the update) to the history and
  replaces \<open>theta\<close> by \<^verbatim>\<open>theta - alpha * grad\<close>.
\<close>

fun gd_loop ::
  "real list list \<Rightarrow> real list \<Rightarrow> real \<Rightarrow> nat \<Rightarrow> real list \<Rightarrow> real list \<Rightarrow> real list \<times> real list"
where
  "gd_loop X y alpha 0 theta J_history = (theta, J_history)"
| "gd_loop X y alpha (Suc n) theta J_history =
     (case cost_function X y theta of
        (J, grad) \<Rightarrow> gd_loop X y alpha n (vsub theta (scale alpha grad)) (J_history @ [J]))"

text \<open>
  Modelled from the spec: \<^verbatim>\<open>gradient_descent\<close> of the absent module
  \<^verbatim>\<open>logistic_regression\<close>, section 4.3: a fixed number of iterations from the initial
  \<open>theta\<close> and an empty history; it returns the last \<open>theta\<close> and the history.
\<close>

definition gradient_descent ::
  "real list list \<Rightarrow> real list \<Rightarrow> real list \<Rightarrow> real \<Rightarrow> nat \<Rightarrow> real list \<times> real list" where
  "gradient_descent X y theta alpha iters = gd_loop X y alpha iters theta []"

text \<open>
  Modelled from the spec: the operation \<^verbatim>\<open>train(X, y, initial_theta, alpha, iterations)\<close>
  of section 6 with the checks of section 7, which the absent module would hold. The
  checks come before the optimizer runs, in the order of the error taxonomy: the row
  count of \<open>X\<close> against the length of \<open>y\<close>, the column count of \<open>X\<close> against the
  length of \<open>theta\<close> (a dimension-mismatch error names the check and carries the two
  numbers that differ), then the configuration (a non-positive iteration count or
  learning rate). Non-finite values do not exist over the reals, so the
  numerical-divergence error of section 7 has no counterpart here.
\<close>

definition train ::
  "real list list \<Rightarrow> real list \<Rightarrow> real list \<Rightarrow> real \<Rightarrow> int \<Rightarrow> error + real list \<times> real list" where
  "train X y initial_theta alpha iterations =
     (if length X \<noteq> length y
      then Inl (DimensionMismatch ''rows of X, length of y'' (length X) (length y))
      else case find (\<lambda>row. length row \<noteq> length initial_theta) X of
        Some row \<Rightarrow>
          Inl (DimensionMismatch ''columns of X, length of theta''
                 (length row) (length initial_theta))
      | None \<Rightarrow>
          if iterations \<le> 0 \<or> alpha \<le> 0 then Inl InvalidConfiguration
          else Inr (gradient_descent X y initial_theta alpha (nat iterations)))"

subsection \<open>Cells 3 and 4.1: predictions\<close>

text \<open>
  \<^verbatim>\<open>np.dot\<close> of two vectors raises \<^verbatim>\<open>ValueError\<close> when their lengths differ, and so
  does \<^verbatim>\<open>np.dot\<close> of a matrix and a vector when the column count of the matrix is not the
  length of the vector. \<^verbatim>\<open>np.transpose\<close> of a vector is the vector.
\<close>

definition np_dot :: "real list \<Rightarrow> real list \<Rightarrow> error + real" where
  "np_dot x theta = (if length x = length theta then Inr (dot x theta) else Inl ValueError)"

definition np_dot_mv :: "real list list \<Rightarrow> real list \<Rightarrow> error + real list" where
  "np_dot_mv X theta =
     (if list_all (\<lambda>row. length row = length theta) X then Inr (mat_vec X theta)
      else Inl ValueError)"

text \<open>
  \<^verbatim>\<open>np.round(p, 0)\<close> rounds to the nearest integer, and a value halfway between two
  integers to the even one. \<^verbatim>\<open>int(...)\<close> cuts the fraction off.
\<close>

definition np_round :: "real \<Rightarrow> real" where
  "np_round p =
     (let f = \<lfloor>p\<rfloor>; d = p - of_int f
      in of_int (if d < 1 / 2 then f else if 1 / 2 < d then f + 1
                 else if even f then f else f + 1))"

definition py_int :: "real \<Rightarrow> int" where
  "py_int r = (if 0 \<le> r then \<lfloor>r\<rfloor> else \<lceil>r\<rceil>)"

text \<open>
  Cell 3, the test set:
  \<^verbatim>\<open>
  p = logistic(np.dot(X_test, np.transpose(theta)))
  y_predict = np.round(p,0)
  \<close>
\<close>

definition predict_test :: "real list list \<Rightarrow> real list \<Rightarrow> error + real list" where
  "predict_test X theta =
     (case np_dot_mv X theta of
        Inl e \<Rightarrow> Inl e
      | Inr z \<Rightarrow> Inr (map np_round (map logistic z)))"

text \<open>
  Cell 4.1, one message with feature vector \<open>x\<close>:
  \<^verbatim>\<open>
  p = logistic(np.dot(x, np.transpose(theta)))
  y_predict = int(np.round(p,0))
  print('Message 1:', "spam" if y_predict== 1 else "ham")
  \<close>
\<close>

definition predict_message :: "real list \<Rightarrow> real list \<Rightarrow> error + string" where
  "predict_message x theta =
     (case np_dot x theta of
        Inl e \<Rightarrow> Inl e
      | Inr z \<Rightarrow>
          (let p = logistic z;
               y_predict = py_int (np_round p)
           in Inr (if y_predict = 1 then ''spam'' else ''ham'')))"

section \<open>Properties\<close>

subsection \<open>Label encoding\<close>

text \<open>
  C9. The label encoding maps a label to 1 exactly when it is the string \<^verbatim>\<open>spam\<close> and
  to 0 for every other string, whatever it is (not only \<^verbatim>\<open>ham\<close>). The result has one
  entry per label, every entry is 0 or 1, and the encoding is total: it returns a vector
  for every list of labels and rejects none.
\<close>

theorem encode_labels_spam_or_zero:
  "length (encode_labels labels) = length labels
   \<and> (\<forall>i < length labels.
        (labels ! i = ''spam'' \<longrightarrow> encode_labels labels ! i = 1)
      \<and> (labels ! i \<noteq> ''spam'' \<longrightarrow> encode_labels labels ! i = 0))
   \<and> set (encode_labels labels) \<subseteq> {0, 1}"
  by (auto simp: encode_labels_def astype_int_def)

theorem encode_labels_spam_or_zero_witness:
  "encode_labels [''spam'', ''ham'', ''Spam'', []] = [1, 0, 0, 0]
   \<and> (1::nat) < length [''spam'', ''ham'', ''Spam'', []]
   \<and> [''spam'', ''ham'', ''Spam'', []] ! 1 \<noteq> ''spam''
   \<and> encode_labels [''spam'', ''ham'', ''Spam'', []] ! 1 = 0
   \<and> [''spam'', ''ham'', ''Spam'', []] ! 0 = ''spam''
   \<and> encode_labels [''spam'', ''ham'', ''Spam'', []] ! 0 = 1"
  using encode_labels_spam_or_zero [of "[''spam'', ''ham'', ''Spam'', []]"]
  by (simp add: encode_labels_def astype_int_def)

subsection \<open>The text normalizer\<close>

lemma py_url: "py ''://'' = [0x3A, 0x2F, 0x2F]"
  by (simp add: py_def)

lemma currency_token_code:
  "currency_token = [32, 95, 95, 99, 117, 114, 114, 101, 110, 99, 121, 95, 95, 32]"
  by (simp add: currency_token_def py_def)

lemma url_token_code: "url_token = [32, 95, 95, 117, 114, 108, 95, 95, 32]"
  by (simp add: url_token_def py_def)

lemma sub_currency_append [simp]: "sub_currency (u @ v) = sub_currency u @ sub_currency v"
  by (simp add: sub_currency_def)

lemma sub_currency_Cons [simp]:
  "sub_currency (c # v) = (if is_currency c then currency_token else [c]) @ sub_currency v"
  by (simp add: sub_currency_def)

lemma sub_currency_Nil [simp]: "sub_currency [] = []"
  by (simp add: sub_currency_def)

lemma sub_currency_no_currency: "c \<in> set (sub_currency doc) \<Longrightarrow> \<not> is_currency c"
  by (induction doc) (auto simp: currency_token_code is_currency_def split: if_splits)

lemma set_sub_url: "set (sub_url doc) \<subseteq> set doc \<union> set url_token"
  by (induction doc rule: sub_url.induct) auto

lemma sub_url_no_currency:
  assumes "c \<in> set (sub_url (sub_currency doc))"
  shows "\<not> is_currency c"
proof -
  have "c \<in> set (sub_currency doc) \<or> c \<in> set url_token"
    using assms set_sub_url by blast
  then show ?thesis
    using sub_currency_no_currency by (auto simp: url_token_code is_currency_def)
qed

lemma sub_url_Cons_other: "s \<noteq> 0x3A \<Longrightarrow> sub_url (s # v) = s # sub_url v"
  by (cases v rule: sub_url.cases) auto

lemma sub_url_sep:
  "s \<noteq> 0x3A \<Longrightarrow> s \<noteq> 0x2F \<Longrightarrow> sub_url (u @ s # v) = sub_url u @ s # sub_url v"
  by (induction u rule: sub_url.induct) (cases v; simp add: sub_url_Cons_other)+

lemma sub_url_match: "sub_url (u @ [0x3A, 0x2F, 0x2F] @ v) = sub_url u @ url_token @ sub_url v"
  by (induction u rule: sub_url.induct) simp_all

lemma sub_url_currency_token:
  "sub_url (u @ currency_token @ v) = sub_url u @ currency_token @ sub_url v"
  by (simp add: currency_token_code sub_url_sep sub_url_Cons_other)

lemma no_url_token_append:
  "\<not> sublist [0x3A, 0x2F, 0x2F] v \<Longrightarrow> \<not> sublist [0x3A, 0x2F, 0x2F] (url_token @ v)"
  by (simp add: url_token_code sublist_Cons_right)

lemma prefix_slashes_sub_url:
  "prefix [0x2F, 0x2F] (sub_url (b # c # doc)) \<Longrightarrow> b = 0x2F \<and> c = 0x2F"
  by (cases doc rule: sub_url.cases) (auto simp: url_token_code split: if_splits)

lemma sub_url_no_url: "\<not> sublist [0x3A, 0x2F, 0x2F] (sub_url doc)"
proof (induction doc rule: sub_url.induct)
  case (1 a b c doc)
  show ?case
  proof (cases "a = 0x3A \<and> b = 0x2F \<and> c = 0x2F")
    case True
    then show ?thesis using 1 by (simp add: no_url_token_append)
  next
    case False
    then have ih: "\<not> sublist [0x3A, 0x2F, 0x2F] (sub_url (b # c # doc))"
      using 1 by simp
    have eq: "sub_url (a # b # c # doc) = a # sub_url (b # c # doc)"
      using False by auto
    have "\<not> prefix [0x3A, 0x2F, 0x2F] (a # sub_url (b # c # doc))"
      using False prefix_slashes_sub_url [of b c doc] by auto
    then show ?thesis
      unfolding eq using ih by (simp only: sublist_Cons_right) simp
  qed
qed (simp_all add: sublist_Cons_right)

lemma upper_without_lower_wide: "upper_without_lower c \<Longrightarrow> 0x100 \<le> c"
  by (auto simp: upper_without_lower_def)

lemma lower_char_nonempty: "lowering_ok tbl \<Longrightarrow> lower_char tbl l c r \<noteq> []"
  by (auto simp: lower_char_def lowering_ok_def)

lemma lower_char_fixed:
  assumes "lowering_ok tbl" "d \<in> set (lower_char tbl l c r)"
  shows "lower_char tbl l' d r' = [d]"
proof (cases "c < 0x100")
  case True
  then have "d < 0x100 \<and> \<not> latin1_upper d"
    using assms(2) by (auto simp: lower_char_def latin1_upper_def split: if_splits)
  then show ?thesis by (simp add: lower_char_def)
next
  case False
  show ?thesis
  proof (cases "upper_without_lower c")
    case True
    then have "d = c" using assms(2) False by (simp add: lower_char_def)
    then show ?thesis using True False by (simp add: lower_char_def)
  next
    case uw: False
    then have "d \<in> set (tbl l c r)" using assms(2) False by (simp add: lower_char_def)
    then show ?thesis using assms(1) False unfolding lowering_ok_def
      by (metis not_le_imp_less not_less)
  qed
qed

lemma lower_char_special:
  assumes "lowering_ok tbl" "d \<in> set (lower_char tbl l c r)"
    and "d = 0x3A \<or> d = 0x2F \<or> is_currency d"
  shows "c = d"
proof (cases "c < 0x100")
  case True
  then show ?thesis
    using assms(2,3) by (auto simp: lower_char_def latin1_upper_def is_currency_def split: if_splits)
next
  case False
  show ?thesis
  proof (cases "upper_without_lower c")
    case True
    then show ?thesis using assms(2) False by (simp add: lower_char_def)
  next
    case uw: False
    then have "d \<in> set (tbl l c r)" using assms(2) False by (simp add: lower_char_def)
    moreover have "0x100 \<le> c" using False by simp
    ultimately have "d \<noteq> 0x3A \<and> d \<noteq> 0x2F \<and> \<not> is_currency d"
      using assms(1) unfolding lowering_ok_def by blast
    then show ?thesis using assms(3) by blast
  qed
qed

lemma lower_char_colon: "lower_char tbl l 0x3A r = [0x3A]"
  by (simp add: lower_char_def latin1_upper_def)

lemma lower_char_slash: "lower_char tbl l 0x2F r = [0x2F]"
  by (simp add: lower_char_def latin1_upper_def)

lemma set_lower_ctx:
  "d \<in> set (lower_ctx tbl l doc r) \<Longrightarrow>
     \<exists>l' c r'. c \<in> set doc \<and> d \<in> set (lower_char tbl l' c r')"
proof (induction doc arbitrary: l)
  case Nil
  then show ?case by simp
next
  case (Cons a doc)
  from Cons.prems consider "d \<in> set (lower_char tbl l a (doc @ r))"
    | "d \<in> set (lower_ctx tbl (l @ [a]) doc r)"
    by auto
  then show ?case
  proof cases
    case 1
    then show ?thesis by (intro exI [of _ l] exI [of _ a] exI [of _ "doc @ r"]) simp
  next
    case 2
    from Cons.IH [OF 2] obtain l' c r' where "c \<in> set doc" "d \<in> set (lower_char tbl l' c r')"
      by blast
    then show ?thesis by (intro exI [of _ l'] exI [of _ c] exI [of _ r']) simp
  qed
qed

lemma lower_ctx_append:
  "lower_ctx tbl l (a @ b) r = lower_ctx tbl l a (b @ r) @ lower_ctx tbl (l @ a) b r"
  by (induction a arbitrary: l) simp_all

lemma lower_ctx_latin1:
  "list_all (\<lambda>c. c < 0x100) a \<Longrightarrow>
     lower_ctx tbl l a r = map (\<lambda>c. if latin1_upper c then c + 32 else c) a"
  by (induction a arbitrary: l) (simp_all add: lower_char_def)

lemma lower_ctx_currency_token: "lower_ctx tbl l currency_token r = currency_token"
  by (subst lower_ctx_latin1) (simp_all add: currency_token_code latin1_upper_def)

lemma lower_ctx_url_token: "lower_ctx tbl l url_token r = url_token"
  by (subst lower_ctx_latin1) (simp_all add: url_token_code latin1_upper_def)

text \<open>
  Lower-casing makes no colon and no slash: where the lower-case text starts with one,
  so does the text itself.
\<close>

lemma hd_lower_ctx:
  assumes "lowering_ok tbl" "d = 0x3A \<or> d = 0x2F"
  shows "prefix [d] (lower_ctx tbl l doc r) \<Longrightarrow> \<exists>doc'. doc = d # doc'"
proof (cases doc)
  case Nil
  assume "prefix [d] (lower_ctx tbl l doc r)"
  then show ?thesis using Nil by simp
next
  case (Cons c doc')
  assume p: "prefix [d] (lower_ctx tbl l doc r)"
  obtain x xs where b: "lower_char tbl l c (doc' @ r) = x # xs"
    using lower_char_nonempty [OF assms(1), of l c "doc' @ r"] by (cases "lower_char tbl l c (doc' @ r)") auto
  then have "x = d" using p Cons by simp
  then have "d \<in> set (lower_char tbl l c (doc' @ r))" using b by simp
  then have "c = d" using lower_char_special [OF assms(1)] assms(2) by blast
  then show ?thesis using Cons by simp
qed

lemma prefix_slashes_lower_ctx:
  assumes "lowering_ok tbl" "prefix [0x2F, 0x2F] (lower_ctx tbl l doc r)"
  shows "prefix [0x2F, 0x2F] doc"
proof -
  have "prefix [0x2F] (lower_ctx tbl l doc r)"
    using assms(2) by (auto simp: prefix_def)
  then obtain doc' where d: "doc = 0x2F # doc'"
    using hd_lower_ctx [OF assms(1), of "0x2F"] by blast
  then have "prefix [0x2F] (lower_ctx tbl (l @ [0x2F]) doc' r)"
    using assms(2) by (simp add: lower_char_slash)
  then obtain doc'' where "doc' = 0x2F # doc''"
    using hd_lower_ctx [OF assms(1), of "0x2F"] by blast
  with d show ?thesis by simp
qed

lemma sublist_url_block:
  "0x3A \<notin> set b \<Longrightarrow> sublist [0x3A, 0x2F, 0x2F] (b @ rest) \<longleftrightarrow> sublist [0x3A, 0x2F, 0x2F] rest"
  by (induction b) (auto simp: sublist_Cons_right)

lemma lower_ctx_no_url:
  assumes "lowering_ok tbl"
  shows "\<not> sublist [0x3A, 0x2F, 0x2F] doc \<Longrightarrow> \<not> sublist [0x3A, 0x2F, 0x2F] (lower_ctx tbl l doc r)"
proof (induction doc arbitrary: l)
  case Nil
  then show ?case by simp
next
  case (Cons c doc)
  from Cons.prems have nd: "\<not> sublist [0x3A, 0x2F, 0x2F] doc"
    and np: "\<not> prefix [0x3A, 0x2F, 0x2F] (c # doc)"
    by (simp_all add: sublist_Cons_right)
  have ih: "\<not> sublist [0x3A, 0x2F, 0x2F] (lower_ctx tbl (l @ [c]) doc r)"
    using Cons.IH [OF nd] .
  show ?case
  proof (cases "c = 0x3A")
    case True
    have "\<not> prefix [0x2F, 0x2F] (lower_ctx tbl (l @ [c]) doc r)"
      using prefix_slashes_lower_ctx [OF assms] np True by auto
    then show ?thesis
      using ih True by (simp add: lower_char_colon sublist_Cons_right)
  next
    case False
    then have "0x3A \<notin> set (lower_char tbl l c (doc @ r))"
      using lower_char_special [OF assms] by blast
    then show ?thesis
      using ih by (simp add: sublist_url_block)
  qed
qed

lemma latin1_sub_currency:
  "list_all (\<lambda>c. c < 0x100) doc \<Longrightarrow> list_all (\<lambda>c. c < 0x100) (sub_currency doc)"
  by (induction doc) (simp_all add: currency_token_code)

lemma latin1_sub_url:
  "list_all (\<lambda>c. c < 0x100) doc \<Longrightarrow> list_all (\<lambda>c. c < 0x100) (sub_url doc)"
  by (induction doc rule: sub_url.induct) (simp_all add: url_token_code)

lemma preprocess_latin1:
  "list_all (\<lambda>c. c < 0x100) doc \<Longrightarrow>
     preprocess tbl doc = map (\<lambda>c. if latin1_upper c then c + 32 else c) (sub_url (sub_currency doc))"
  by (simp add: preprocess_def lower_def lower_ctx_latin1 latin1_sub_currency latin1_sub_url)

lemma preprocess_currency_general:
  assumes "is_currency c"
  shows "preprocess tbl (u @ [c] @ v) =
     lower_ctx tbl [] (sub_url (sub_currency u)) (currency_token @ sub_url (sub_currency v))
     @ currency_token
     @ lower_ctx tbl (sub_url (sub_currency u) @ currency_token) (sub_url (sub_currency v)) []"
  using assms
  by (simp add: preprocess_def lower_def sub_url_currency_token lower_ctx_append
        lower_ctx_currency_token)

lemma preprocess_url_general:
  "preprocess tbl (u @ [0x3A, 0x2F, 0x2F] @ v) =
     lower_ctx tbl [] (sub_url (sub_currency u)) (url_token @ sub_url (sub_currency v))
     @ url_token
     @ lower_ctx tbl (sub_url (sub_currency u) @ url_token) (sub_url (sub_currency v)) []"
proof -
  have "sub_currency (u @ [0x3A, 0x2F, 0x2F] @ v)
      = sub_currency u @ [0x3A, 0x2F, 0x2F] @ sub_currency v"
    by (simp add: is_currency_def)
  then show ?thesis
    by (simp only: preprocess_def lower_def sub_url_match lower_ctx_append
          lower_ctx_url_token append_assoc append_Nil append_Nil2)
qed

lemma preprocess_currency_latin1:
  assumes "is_currency c" "list_all (\<lambda>c. c < 0x100) (u @ v)"
  shows "preprocess tbl (u @ [c] @ v) = preprocess tbl u @ currency_token @ preprocess tbl v"
proof -
  have u: "list_all (\<lambda>c. c < 0x100) (sub_url (sub_currency u))"
    and v: "list_all (\<lambda>c. c < 0x100) (sub_url (sub_currency v))"
    using assms(2) by (simp_all add: latin1_sub_currency latin1_sub_url)
  show ?thesis
    unfolding preprocess_currency_general [OF assms(1)]
    by (simp add: preprocess_def lower_def lower_ctx_latin1 [OF u] lower_ctx_latin1 [OF v])
qed

lemma preprocess_url_latin1:
  assumes "list_all (\<lambda>c. c < 0x100) (u @ v)"
  shows "preprocess tbl (u @ [0x3A, 0x2F, 0x2F] @ v) = preprocess tbl u @ url_token @ preprocess tbl v"
proof -
  have u: "list_all (\<lambda>c. c < 0x100) (sub_url (sub_currency u))"
    and v: "list_all (\<lambda>c. c < 0x100) (sub_url (sub_currency v))"
    using assms by (simp_all add: latin1_sub_currency latin1_sub_url)
  show ?thesis
    unfolding preprocess_url_general
    by (simp add: preprocess_def lower_def lower_ctx_latin1 [OF u] lower_ctx_latin1 [OF v])
qed

lemma sub_url_currency_token_only: "sub_url currency_token = currency_token"
  using sub_url_currency_token [of "[]" "[]"] by simp

lemma preprocess_single_latin1:
  assumes "c < 0x100"
  shows "preprocess tbl [c] =
     (if c = 0x24 \<or> c = 0xA3 then currency_token
      else if (0x41 \<le> c \<and> c \<le> 0x5A) \<or> (0xC0 \<le> c \<and> c \<le> 0xDE \<and> c \<noteq> 0xD7) then [c + 32]
      else [c])"
proof (cases "is_currency c")
  case True
  then show ?thesis
    using lower_ctx_currency_token [of tbl "[]" "[]"]
    by (auto simp: preprocess_def lower_def is_currency_def sub_url_currency_token_only)
next
  case False
  then show ?thesis
    using assms by (auto simp: preprocess_def lower_def is_currency_def lower_char_def latin1_upper_def)
qed

lemma preprocess_single_upper_without_lower:
  assumes "upper_without_lower c"
  shows "preprocess tbl [c] = [c]"
proof -
  have "0x100 \<le> c" using assms by (rule upper_without_lower_wide)
  then have "\<not> is_currency c" "\<not> c < 0x100" by (auto simp: is_currency_def)
  then show ?thesis
    using assms by (simp add: preprocess_def lower_def lower_char_def)
qed

lemma preprocess_chars:
  assumes "lowering_ok tbl" "d \<in> set (preprocess tbl doc)"
  shows "d \<noteq> 0x24 \<and> d \<noteq> 0xA3
    \<and> \<not> (0x41 \<le> d \<and> d \<le> 0x5A) \<and> \<not> (0xC0 \<le> d \<and> d \<le> 0xDE \<and> d \<noteq> 0xD7)
    \<and> (\<forall>l r. lower_char tbl l d r = [d])"
proof -
  from assms(2) obtain l' c r' where c: "c \<in> set (sub_url (sub_currency doc))"
    and d: "d \<in> set (lower_char tbl l' c r')"
    unfolding preprocess_def lower_def using set_lower_ctx by blast
  have nc: "\<not> is_currency c"
    using c by (rule sub_url_no_currency)
  have "\<not> is_currency d"
  proof
    assume "is_currency d"
    then have "c = d" using lower_char_special [OF assms(1) d] by blast
    with nc \<open>is_currency d\<close> show False by simp
  qed
  moreover have fx: "\<forall>l r. lower_char tbl l d r = [d]"
    using lower_char_fixed [OF assms(1) d] by blast
  moreover have "\<not> (0x41 \<le> d \<and> d \<le> 0x5A) \<and> \<not> (0xC0 \<le> d \<and> d \<le> 0xDE \<and> d \<noteq> 0xD7)"
  proof (rule ccontr)
    assume "\<not> ?thesis"
    then have "d < 0x100" "latin1_upper d" by (auto simp: latin1_upper_def)
    then have "lower_char tbl [] d [] = [d + 32]" by (simp add: lower_char_def)
    with fx show False by simp
  qed
  ultimately show ?thesis by (simp add: is_currency_def)
qed

text \<open>
  C5, as the notebook has it. For every message, whatever Unicode's table of lower-case
  forms beyond U+00FF is (as long as it is a table of lower-case forms: \<open>lowering_ok\<close>):

  \<^item> the normalized text holds no \<open>$\<close>, no pound sign and nowhere the three
    characters \<open>://\<close>; it holds none of the upper-case letters \<open>A\<close> to \<open>Z\<close> and U+00C0
    to U+00DE, and every character of it is its own lower-case form, so
    \<^verbatim>\<open>str.lower\<close> would change nothing any more;

  \<^item> an occurrence of \<open>$\<close> or of the pound sign becomes the token
    \<^verbatim>\<open>' __currency__ '\<close> and an occurrence of \<open>://\<close> the token \<^verbatim>\<open>' __url__ '\<close>, a
    different one, each between the lower-case forms of the normalized texts before
    and behind it; for texts below U+0100, where no lower-case form looks at its
    neighbours, these are the normalized texts before and behind it themselves;

  \<^item> a single character below U+0100 becomes the currency token, the letter 32 code
    points above it if it is an upper-case letter, and itself otherwise; an upper-case
    letter that has no lower-case form (\<open>upper_without_lower\<close>) stays as it is;

  \<^item> the vectorizer splits into tokens what the normalizer returns.
\<close>

theorem preprocess_normalizes:
  assumes "lowering_ok tbl"
  shows "(\<forall>d\<in>set (preprocess tbl doc).
            d \<noteq> 0x24 \<and> d \<noteq> 0xA3
          \<and> \<not> (0x41 \<le> d \<and> d \<le> 0x5A) \<and> \<not> (0xC0 \<le> d \<and> d \<le> 0xDE \<and> d \<noteq> 0xD7)
          \<and> (\<forall>l r. lower_char tbl l d r = [d]))
    \<and> \<not> sublist (py ''://'') (preprocess tbl doc)
    \<and> (\<forall>u v c. c = 0x24 \<or> c = 0xA3 \<longrightarrow>
          preprocess tbl (u @ [c] @ v) =
            lower_ctx tbl [] (sub_url (sub_currency u)) (currency_token @ sub_url (sub_currency v))
            @ currency_token
            @ lower_ctx tbl (sub_url (sub_currency u) @ currency_token)
                (sub_url (sub_currency v)) [])
    \<and> (\<forall>u v. preprocess tbl (u @ py ''://'' @ v) =
            lower_ctx tbl [] (sub_url (sub_currency u)) (url_token @ sub_url (sub_currency v))
            @ url_token
            @ lower_ctx tbl (sub_url (sub_currency u) @ url_token)
                (sub_url (sub_currency v)) [])
    \<and> (\<forall>u. preprocess tbl u = lower_ctx tbl [] (sub_url (sub_currency u)) [])
    \<and> (\<forall>u v c. (c = 0x24 \<or> c = 0xA3) \<and> list_all (\<lambda>c. c < 0x100) (u @ v) \<longrightarrow>
          preprocess tbl (u @ [c] @ v) = preprocess tbl u @ currency_token @ preprocess tbl v)
    \<and> (\<forall>u v. list_all (\<lambda>c. c < 0x100) (u @ v) \<longrightarrow>
          preprocess tbl (u @ py ''://'' @ v) = preprocess tbl u @ url_token @ preprocess tbl v)
    \<and> (\<forall>c<0x100. preprocess tbl [c] =
          (if c = 0x24 \<or> c = 0xA3 then currency_token
           else if (0x41 \<le> c \<and> c \<le> 0x5A) \<or> (0xC0 \<le> c \<and> c \<le> 0xDE \<and> c \<noteq> 0xD7)
           then [c + 32] else [c]))
    \<and> (\<forall>c. upper_without_lower c \<longrightarrow> preprocess tbl [c] = [c])
    \<and> currency_token = py '' __currency__ ''
    \<and> url_token = py '' __url__ ''
    \<and> currency_token \<noteq> url_token
    \<and> transform tbl vec [doc]
        = [count_vector (vocabulary vec) (tokenize vec (preprocess tbl doc))]"
proof (intro conjI)
  show "\<forall>d\<in>set (preprocess tbl doc).
            d \<noteq> 0x24 \<and> d \<noteq> 0xA3
          \<and> \<not> (0x41 \<le> d \<and> d \<le> 0x5A) \<and> \<not> (0xC0 \<le> d \<and> d \<le> 0xDE \<and> d \<noteq> 0xD7)
          \<and> (\<forall>l r. lower_char tbl l d r = [d])"
    using preprocess_chars [OF assms] by blast
  show "\<not> sublist (py ''://'') (preprocess tbl doc)"
    unfolding py_url preprocess_def lower_def
    by (rule lower_ctx_no_url [OF assms sub_url_no_url])
  show "\<forall>u v c. c = 0x24 \<or> c = 0xA3 \<longrightarrow>
          preprocess tbl (u @ [c] @ v) =
            lower_ctx tbl [] (sub_url (sub_currency u)) (currency_token @ sub_url (sub_currency v))
            @ currency_token
            @ lower_ctx tbl (sub_url (sub_currency u) @ currency_token)
                (sub_url (sub_currency v)) []"
  proof (intro allI impI)
    fix u v :: pystr and c :: nat
    assume "c = 0x24 \<or> c = 0xA3"
    then have "is_currency c"
      by (auto simp: is_currency_def)
    then show "preprocess tbl (u @ [c] @ v) =
            lower_ctx tbl [] (sub_url (sub_currency u)) (currency_token @ sub_url (sub_currency v))
            @ currency_token
            @ lower_ctx tbl (sub_url (sub_currency u) @ currency_token)
                (sub_url (sub_currency v)) []"
      by (rule preprocess_currency_general)
  qed
  show "\<forall>u v. preprocess tbl (u @ py ''://'' @ v) =
            lower_ctx tbl [] (sub_url (sub_currency u)) (url_token @ sub_url (sub_currency v))
            @ url_token
            @ lower_ctx tbl (sub_url (sub_currency u) @ url_token)
                (sub_url (sub_currency v)) []"
    unfolding py_url using preprocess_url_general by blast
  show "\<forall>u. preprocess tbl u = lower_ctx tbl [] (sub_url (sub_currency u)) []"
    by (simp add: preprocess_def lower_def)
  show "\<forall>u v c. (c = 0x24 \<or> c = 0xA3) \<and> list_all (\<lambda>c. c < 0x100) (u @ v) \<longrightarrow>
          preprocess tbl (u @ [c] @ v) = preprocess tbl u @ currency_token @ preprocess tbl v"
  proof (intro allI impI)
    fix u v :: pystr and c :: nat
    assume "(c = 0x24 \<or> c = 0xA3) \<and> list_all (\<lambda>c. c < 0x100) (u @ v)"
    then have "is_currency c" "list_all (\<lambda>c. c < 0x100) (u @ v)"
      by (auto simp: is_currency_def)
    then show "preprocess tbl (u @ [c] @ v)
        = preprocess tbl u @ currency_token @ preprocess tbl v"
      by (rule preprocess_currency_latin1)
  qed
  show "\<forall>u v. list_all (\<lambda>c. c < 0x100) (u @ v) \<longrightarrow>
          preprocess tbl (u @ py ''://'' @ v) = preprocess tbl u @ url_token @ preprocess tbl v"
    unfolding py_url using preprocess_url_latin1 by blast
  show "\<forall>c<0x100. preprocess tbl [c] =
          (if c = 0x24 \<or> c = 0xA3 then currency_token
           else if (0x41 \<le> c \<and> c \<le> 0x5A) \<or> (0xC0 \<le> c \<and> c \<le> 0xDE \<and> c \<noteq> 0xD7)
           then [c + 32] else [c])"
    using preprocess_single_latin1 by blast
  show "\<forall>c. upper_without_lower c \<longrightarrow> preprocess tbl [c] = [c]"
    using preprocess_single_upper_without_lower by blast
  show "currency_token = py '' __currency__ ''"
    by (simp add: currency_token_def)
  show "url_token = py '' __url__ ''"
    by (simp add: url_token_def)
  show "currency_token \<noteq> url_token"
    by (simp add: currency_token_code url_token_code)
  show "transform tbl vec [doc]
        = [count_vector (vocabulary vec) (tokenize vec (preprocess tbl doc))]"
    by (simp add: transform_def)
qed

theorem preprocess_normalizes_witness:
  "lowering_ok identity_lowering
   \<and> preprocess identity_lowering (py ''A $1 B://c'') = py ''a  __currency__ 1 b __url__ c''
   \<and> 98 \<in> set (preprocess identity_lowering (py ''A $1 B://c''))
   \<and> lower_char identity_lowering [] 98 [] = [98]
   \<and> list_all (\<lambda>c. c < 0x100) ([0x41] @ [0x31 :: nat])
   \<and> preprocess identity_lowering ([0x41] @ [0xA3] @ [0x31])
       = preprocess identity_lowering [0x41] @ currency_token @ preprocess identity_lowering [0x31]
   \<and> preprocess identity_lowering [0x41] = [0x61]
   \<and> upper_without_lower 0x2115
   \<and> preprocess identity_lowering [0x2115] = [0x2115]"
proof -
  have ok: "lowering_ok identity_lowering"
    by (auto simp: lowering_ok_def identity_lowering_def lower_char_def is_currency_def)
  have e: "preprocess identity_lowering (py ''A $1 B://c'') = py ''a  __currency__ 1 b __url__ c''"
    by code_simp
  have m: "98 \<in> set (preprocess identity_lowering (py ''A $1 B://c''))"
    unfolding e by (simp add: py_def)
  have l: "list_all (\<lambda>c. c < 0x100) ([0x41] @ [0x31 :: nat])"
    by simp
  have u: "upper_without_lower 0x2115"
    by (simp add: upper_without_lower_def)
  note t = preprocess_normalizes [OF ok, of "py ''A $1 B://c''"]
  note chars = t [THEN conjunct1]
  note cur = t [THEN conjunct2, THEN conjunct2, THEN conjunct2, THEN conjunct2, THEN conjunct2,
    THEN conjunct1]
  note single = t [THEN conjunct2, THEN conjunct2, THEN conjunct2, THEN conjunct2,
    THEN conjunct2, THEN conjunct2, THEN conjunct2, THEN conjunct1]
  note stay = t [THEN conjunct2, THEN conjunct2, THEN conjunct2, THEN conjunct2,
    THEN conjunct2, THEN conjunct2, THEN conjunct2, THEN conjunct2, THEN conjunct1]
  have f: "lower_char identity_lowering [] 98 [] = [98]"
    using chars [rule_format, OF m] by blast
  have c: "preprocess identity_lowering ([0x41] @ [0xA3] @ [0x31])
       = preprocess identity_lowering [0x41] @ currency_token @ preprocess identity_lowering [0x31]"
    using cur [rule_format, of "0xA3" "[0x41]" "[0x31]"] l by blast
  have s: "preprocess identity_lowering [0x41] = [0x61]"
    using single [rule_format, of "0x41"] by simp
  have k: "preprocess identity_lowering [0x2115] = [0x2115]"
    using stay [rule_format, OF u] .
  show ?thesis
    by (intro conjI ok e m f l c s u k)
qed

text \<open>
  The claim as the specification words it (no upper-case letter is left) fails for the
  message that is the one character U+2115, the double-struck capital N: it is an
  upper-case letter, \<^verbatim>\<open>str.lower\<close> has no lower-case form for it, and the normalizer
  returns it as it is.
\<close>

theorem preprocess_keeps_upper_case_counterexample:
  "upper_without_lower 0x2115
   \<and> preprocess identity_lowering [0x2115] = [0x2115]
   \<and> 0x2115 \<in> set (preprocess identity_lowering [0x2115])"
  by (simp add: upper_without_lower_def preprocess_def lower_def lower_char_def is_currency_def)

subsection \<open>Balancing, shuffling and splitting\<close>

lemma pos_filter: "pos y = filter (\<lambda>i. y ! i = 1) [0..<length y]"
  by (auto simp: pos_def nonzero_def intro: filter_cong)

lemma neg_filter: "neg y = filter (\<lambda>i. y ! i = 0) [0..<length y]"
  by (auto simp: neg_def nonzero_def intro: filter_cong)

lemma set_pos: "set (pos y) = {i. i < length y \<and> y ! i = 1}"
  by (auto simp: pos_filter)

lemma set_neg: "set (neg y) = {i. i < length y \<and> y ! i = 0}"
  by (auto simp: neg_filter)

lemma in_posD: "i \<in> set (pos y) \<Longrightarrow> i < length y \<and> y ! i = 1"
  by (simp add: pos_filter)

lemma in_negD: "i \<in> set (neg y) \<Longrightarrow> i < length y \<and> y ! i = 0"
  by (simp add: neg_filter)

lemma in_take_negD: "i \<in> set (take n (neg y)) \<Longrightarrow> i < length y \<and> y ! i = 0"
  by (rule in_negD) (erule in_set_takeD)

lemma filter_pos_subset: "filter (\<lambda>i. y ! i = 1) (subset_idx y) = pos y"
proof -
  have "filter (\<lambda>i. y ! i = 1) (pos y) = pos y"
    by (rule filter_True) (simp add: in_posD)
  moreover have "filter (\<lambda>i. y ! i = 1) (take n (neg y)) = []" for n
    by (rule filter_False) (simp add: in_take_negD)
  ultimately show ?thesis by (simp add: subset_idx_def)
qed

lemma filter_neg_subset: "filter (\<lambda>i. y ! i = 0) (subset_idx y) = take (length (pos y)) (neg y)"
proof -
  have "filter (\<lambda>i. y ! i = 0) (pos y) = []"
    by (rule filter_False) (simp add: in_posD)
  moreover have "filter (\<lambda>i. y ! i = 0) (take n (neg y)) = take n (neg y)" for n
    by (rule filter_True) (simp add: in_take_negD)
  ultimately show ?thesis by (simp add: subset_idx_def)
qed

lemma subset_idx_bound: "i \<in> set (subset_idx y) \<Longrightarrow> i < length y"
  by (auto simp: subset_idx_def dest: in_posD in_take_negD)

lemma take_rows_ok:
  "\<forall>i\<in>set idx. i < length A \<Longrightarrow> take_rows A idx = Inr (map (\<lambda>i. A ! i) idx)"
  by (simp add: take_rows_def list_all_iff)

lemma take_rows_prefix:
  "take_rows A [0..<n] = (if n \<le> length A then Inr (take n A) else Inl IndexError)"
proof (cases "n \<le> length A")
  case True
  then have "map (\<lambda>i. A ! i) [0..<n] = take n A"
    by (intro nth_equalityI) simp_all
  with True show ?thesis by (simp add: take_rows_def list_all_iff)
next
  case False
  then have "length A \<in> set [0..<n]" by simp
  then have "\<not> list_all (\<lambda>i. i < length A) [0..<n]"
    unfolding list_all_iff by blast
  with False show ?thesis by (simp add: take_rows_def)
qed

lemma take_rows_segment:
  "take_rows A (map (\<lambda>i. a + i) [0..<n]) =
     (if n = 0 \<or> a + n \<le> length A then Inr (take n (drop a A)) else Inl IndexError)"
proof (cases "n = 0 \<or> a + n \<le> length A")
  case True
  then have "map (\<lambda>i. A ! i) (map (\<lambda>i. a + i) [0..<n]) = take n (drop a A)"
    by (intro nth_equalityI) auto
  moreover have "list_all (\<lambda>i. i < length A) (map (\<lambda>i. a + i) [0..<n])"
    using True by (auto simp: list_all_iff)
  ultimately show ?thesis using True by (simp add: take_rows_def)
next
  case False
  then have "a + (n - 1) \<in> set (map (\<lambda>i. a + i) [0..<n])" "\<not> a + (n - 1) < length A"
    by auto
  then have "\<not> list_all (\<lambda>i. i < length A) (map (\<lambda>i. a + i) [0..<n])"
    unfolding list_all_iff by blast
  with False show ?thesis by (simp add: take_rows_def)
qed

lemma length_subset_idx:
  "length (pos y) \<le> length (neg y) \<Longrightarrow> length (subset_idx y) = 2 * length (pos y)"
  by (simp add: subset_idx_def)

lemma length_filter_mset_eq:
  "mset xs = mset ys \<Longrightarrow> length (filter P xs) = length (filter P ys)"
  by (metis mset_filter size_mset)

lemma shape_dataset_eq:
  assumes "length X = length y"
    and "mset shuffled = mset (subset_idx y)"
    and "shuffled = fst (shuffle G (seed G 1) (subset_idx y))"
  shows "shape_dataset G X y numTrain numTest =
     (if numTrain + numTest \<le> length shuffled
      then Inr \<lparr>X_train = take numTrain (map (\<lambda>i. X ! i) shuffled),
                y_train = take numTrain (map (\<lambda>i. y ! i) shuffled),
                X_test = take numTest (drop numTrain (map (\<lambda>i. X ! i) shuffled)),
                y_test = take numTest (drop numTrain (map (\<lambda>i. y ! i) shuffled))\<rparr>
      else Inl IndexError)"
proof -
  have "set shuffled = set (subset_idx y)"
    using assms(2) by (rule mset_eq_setD)
  then have b: "\<forall>i\<in>set shuffled. i < length y"
    using subset_idx_bound by blast
  have X': "take_rows X shuffled = Inr (map (\<lambda>i. X ! i) shuffled)"
    using b assms(1) by (simp add: take_rows_ok)
  have y': "take_rows y shuffled = Inr (map (\<lambda>i. y ! i) shuffled)"
    using b by (simp add: take_rows_ok)
  show ?thesis
    unfolding shape_dataset_def split_rows_def Let_def assms(3) [symmetric] X' y'
    by (simp add: take_rows_prefix take_rows_segment)
qed

lemma distinct_subset_idx: "distinct (subset_idx y)"
proof -
  have "set (pos y) \<inter> set (take n (neg y)) = {}" for n
    using in_posD [of _ y] in_take_negD [of _ n y] by fastforce
  then show ?thesis
    by (simp add: subset_idx_def pos_filter neg_filter distinct_take)
qed

lemma take_drop_all: "a + b = length zs \<Longrightarrow> take b (drop a zs) = drop a zs"
  by simp

text \<open>
  C6, as the notebook has it. Let the rows be aligned with the labels, let the
  generator's shuffle permute its argument, and let there be at least as many ham as
  spam messages. Then \<open>pos\<close> lists every index with label 1 and \<open>neg\<close> every index with
  label 0, in increasing order; the subset is \<open>pos\<close> followed by the first
  \<open>length pos\<close> entries of \<open>neg\<close>: every spam index once and as many ham indices, so
  twice the spam count in all. The shuffled order is a permutation of the subset,
  fixed by the generator state that \<^verbatim>\<open>np.random.seed(1)\<close> sets, and still has as many
  labels 1 as labels 0. The training set is the first \<open>numTrain\<close> shuffled rows and the
  test set the next \<open>numTest\<close>, provided \<open>numTrain + numTest\<close> does not exceed the
  subset's length; when the sizes add up to that length the test set is all that is
  behind the training rows, and the two together are all shuffled rows. Sizes that
  exceed the subset's length raise \<^verbatim>\<open>IndexError\<close>.
\<close>

theorem shape_dataset_balanced_split:
  assumes "length X = length y"
    and "permuting G"
    and "length (pos y) \<le> length (neg y)"
  shows "set (pos y) = {i. i < length y \<and> y ! i = 1}
    \<and> filter (\<lambda>i. y ! i = 1) (subset_idx y) = pos y
    \<and> length (filter (\<lambda>i. y ! i = 0) (subset_idx y)) = length (pos y)
    \<and> length (subset_idx y) = 2 * length (pos y)
    \<and> mset (fst (shuffle G (seed G 1) (subset_idx y))) = mset (subset_idx y)
    \<and> (let shuffled = fst (shuffle G (seed G 1) (subset_idx y));
            Xs = map (\<lambda>i. X ! i) shuffled;
            ys = map (\<lambda>i. y ! i) shuffled
        in length (filter (\<lambda>l. l = 1) ys) = length (pos y)
         \<and> length (filter (\<lambda>l. l = 0) ys) = length (pos y)
         \<and> shape_dataset G X y numTrain numTest =
             (if numTrain + numTest \<le> 2 * length (pos y)
              then Inr \<lparr>X_train = take numTrain Xs, y_train = take numTrain ys,
                        X_test = take numTest (drop numTrain Xs),
                        y_test = take numTest (drop numTrain ys)\<rparr>
              else Inl IndexError)
         \<and> (numTrain + numTest = 2 * length (pos y) \<longrightarrow>
               take numTrain Xs @ take numTest (drop numTrain Xs) = Xs
             \<and> take numTrain ys @ take numTest (drop numTrain ys) = ys
             \<and> take numTest (drop numTrain Xs) = drop numTrain Xs
             \<and> take numTest (drop numTrain ys) = drop numTrain ys))
    \<and> pos y = filter (\<lambda>i. y ! i = 1) [0..<length y]
    \<and> neg y = filter (\<lambda>i. y ! i = 0) [0..<length y]
    \<and> subset_idx y = pos y @ take (length (pos y)) (neg y)
    \<and> filter (\<lambda>i. y ! i = 0) (subset_idx y) = take (length (pos y)) (neg y)
    \<and> distinct (subset_idx y)"
proof -
  define shuffled where "shuffled = fst (shuffle G (seed G 1) (subset_idx y))"
  have m: "mset shuffled = mset (subset_idx y)"
    using assms(2) by (simp add: permuting_def shuffled_def)
  have len: "length (subset_idx y) = 2 * length (pos y)"
    using assms(3) by (rule length_subset_idx)
  have lens: "length shuffled = 2 * length (pos y)"
    using m len by (metis size_mset)
  have n0: "length (filter (\<lambda>i. y ! i = 0) (subset_idx y)) = length (pos y)"
    using assms(3) by (simp add: filter_neg_subset)
  have c1: "length (filter (\<lambda>l. l = 1) (map (\<lambda>i. y ! i) shuffled)) = length (pos y)"
    using length_filter_mset_eq [OF m, of "\<lambda>i. y ! i = 1"]
    by (simp add: filter_map comp_def filter_pos_subset)
  have c0: "length (filter (\<lambda>l. l = 0) (map (\<lambda>i. y ! i) shuffled)) = length (pos y)"
    using length_filter_mset_eq [OF m, of "\<lambda>i. y ! i = 0"] n0
    by (simp add: filter_map comp_def)
  have sd: "shape_dataset G X y numTrain numTest =
     (if numTrain + numTest \<le> 2 * length (pos y)
      then Inr \<lparr>X_train = take numTrain (map (\<lambda>i. X ! i) shuffled),
                y_train = take numTrain (map (\<lambda>i. y ! i) shuffled),
                X_test = take numTest (drop numTrain (map (\<lambda>i. X ! i) shuffled)),
                y_test = take numTest (drop numTrain (map (\<lambda>i. y ! i) shuffled))\<rparr>
      else Inl IndexError)"
    using shape_dataset_eq [OF assms(1) m shuffled_def] by (simp add: lens)
  have app: "take a zs @ take b (drop a zs) = zs" if "a + b = length zs" for a b and zs :: "'c list"
    using that by (metis add_diff_cancel_left' append_take_drop_id length_drop order_refl take_all)
  have whole: "numTrain + numTest = 2 * length (pos y) \<longrightarrow>
               take numTrain (map (\<lambda>i. X ! i) shuffled)
                 @ take numTest (drop numTrain (map (\<lambda>i. X ! i) shuffled))
               = map (\<lambda>i. X ! i) shuffled
             \<and> take numTrain (map (\<lambda>i. y ! i) shuffled)
                 @ take numTest (drop numTrain (map (\<lambda>i. y ! i) shuffled))
               = map (\<lambda>i. y ! i) shuffled
             \<and> take numTest (drop numTrain (map (\<lambda>i. X ! i) shuffled))
               = drop numTrain (map (\<lambda>i. X ! i) shuffled)
             \<and> take numTest (drop numTrain (map (\<lambda>i. y ! i) shuffled))
               = drop numTrain (map (\<lambda>i. y ! i) shuffled)"
    using app [of numTrain numTest "map (\<lambda>i. X ! i) shuffled"]
      app [of numTrain numTest "map (\<lambda>i. y ! i) shuffled"]
      take_drop_all [of numTrain numTest "map (\<lambda>i. X ! i) shuffled"]
      take_drop_all [of numTrain numTest "map (\<lambda>i. y ! i) shuffled"] lens
    by simp
  show ?thesis
    unfolding Let_def shuffled_def [symmetric]
    by (intro conjI set_pos filter_pos_subset n0 len m c1 c0 sd whole pos_filter neg_filter
          subset_idx_def filter_neg_subset distinct_subset_idx)
qed

theorem shape_dataset_balanced_split_witness:
  "length [''a'', ''b'', ''c'', ''d'', ''e''] = length [1, 0, 0, 1, 0 :: int]
   \<and> permuting \<lparr>seed = (\<lambda>n. n), shuffle = (\<lambda>s xs. (rev xs, Suc s))\<rparr>
   \<and> length (pos [1, 0, 0, 1, 0]) \<le> length (neg [1, 0, 0, 1, 0])
   \<and> subset_idx [1, 0, 0, 1, 0] = [0, 3, 1, 2]
   \<and> filter (\<lambda>i. [1, 0, 0, 1, 0 :: int] ! i = 0) (subset_idx [1, 0, 0, 1, 0]) = [1, 2]
   \<and> shape_dataset \<lparr>seed = (\<lambda>n. n), shuffle = (\<lambda>s xs. (rev xs, Suc s))\<rparr>
         [''a'', ''b'', ''c'', ''d'', ''e''] [1, 0, 0, 1, 0] 2 2
       = Inr \<lparr>X_train = [''c'', ''b''], y_train = [0, 0], X_test = [''d'', ''a''], y_test = [1, 1]\<rparr>
   \<and> shape_dataset \<lparr>seed = (\<lambda>n. n), shuffle = (\<lambda>s xs. (rev xs, Suc s))\<rparr>
         [''a'', ''b'', ''c'', ''d'', ''e''] [1, 0, 0, 1, 0] 3 2
       = Inl IndexError"
proof -
  let ?G = "\<lparr>seed = (\<lambda>n. n), shuffle = (\<lambda>s xs. (rev xs, Suc s :: nat))\<rparr>"
  let ?X = "[''a'', ''b'', ''c'', ''d'', ''e'']"
  let ?y = "[1, 0, 0, 1, 0 :: int]"
  have l: "length ?X = length ?y"
    by simp
  have g: "permuting ?G"
    by (simp add: permuting_def)
  have p: "pos ?y = [0, 3]" and n: "neg ?y = [1, 2, 4]"
    by (simp_all add: pos_def neg_def nonzero_def upt_rec [of _ 5] upt_rec [of _ "Suc _"])
  have b: "length (pos ?y) \<le> length (neg ?y)"
    by (simp add: p n)
  have s: "subset_idx ?y = [0, 3, 1, 2]"
    by (simp add: subset_idx_def p n)
  have sh: "fst (shuffle ?G (seed ?G 1) (subset_idx ?y)) = [2, 1, 3, 0]"
    by (simp add: s)
  note t = shape_dataset_balanced_split [OF l g b]
  note sd = t [THEN conjunct2, THEN conjunct2, THEN conjunct2, THEN conjunct2, THEN conjunct2,
    THEN conjunct1, unfolded Let_def sh, THEN conjunct2, THEN conjunct2, THEN conjunct1]
  note hams = t [THEN conjunct2, THEN conjunct2, THEN conjunct2, THEN conjunct2, THEN conjunct2,
    THEN conjunct2, THEN conjunct2, THEN conjunct2, THEN conjunct2, THEN conjunct1]
  have f: "filter (\<lambda>i. ?y ! i = 0) (subset_idx ?y) = [1, 2]"
    using hams by (simp add: p n)
  have a: "shape_dataset ?G ?X ?y 2 2
      = Inr \<lparr>X_train = [''c'', ''b''], y_train = [0, 0], X_test = [''d'', ''a''], y_test = [1, 1]\<rparr>"
    using sd [of 2 2] by (simp add: p)
  have c: "shape_dataset ?G ?X ?y 3 2 = Inl IndexError"
    using sd [of 3 2] by (simp add: p)
  show ?thesis
    by (intro conjI l g b s f a c)
qed

text \<open>
  The claim as the specification words it fails for three messages labelled spam,
  spam, ham with \<open>numTrain = 1\<close> and \<open>numTest = 1\<close>. The slice \<^verbatim>\<open>neg[0:len(pos)]\<close> holds
  the one ham index only, so the subset has two spam indices and one ham index: three,
  not four, and the classes are not balanced. And the test set is the row behind the training row, not the last
  row; the last row is in neither set (shown for the three rows in the order
  \<open>r0, r1, r2\<close>; it is so in every order).
\<close>

theorem shape_dataset_counterexample:
  "encode_labels [''spam'', ''spam'', ''ham''] = [1, 1, 0]
   \<and> pos [1, 1, 0] = [0, 1]
   \<and> neg [1, 1, 0] = [2]
   \<and> subset_idx [1, 1, 0] = [0, 1, 2]
   \<and> length (subset_idx [1, 1, 0]) \<noteq> 2 * length (pos [1, 1, 0])
   \<and> split_rows [''r0'', ''r1'', ''r2''] [1, 1, 0] 1 1
         = Inr \<lparr>X_train = [''r0''], y_train = [1], X_test = [''r1''], y_test = [1]\<rparr>
   \<and> [''r1''] \<noteq> drop 2 [''r0'', ''r1'', ''r2'']"
  by (simp add: encode_labels_def astype_int_def subset_idx_def pos_def neg_def nonzero_def
        split_rows_def take_rows_def)

subsection \<open>The hypothesis function\<close>

lemma logistic_pos: "0 < logistic z"
  by (simp add: logistic_def add_pos_pos)

lemma logistic_less_one: "logistic z < 1"
  by (simp add: logistic_def add_pos_pos)

lemma logistic_zero: "logistic 0 = 1 / 2"
  by (simp add: logistic_def)

lemma logistic_symmetry: "logistic z + logistic (- z) = 1"
proof -
  have e: "exp (- z) = 1 / exp z"
    by (simp add: exp_minus inverse_eq_divide)
  have nz: "1 + exp z \<noteq> 0"
    using exp_gt_zero [of z] by linarith
  have "logistic z + logistic (- z) = exp z / (1 + exp z) + 1 / (1 + exp z)"
    unfolding logistic_def e using nz by (simp add: field_simps)
  also have "\<dots> = (exp z + 1) / (1 + exp z)"
    by (simp only: add_divide_distrib)
  also have "\<dots> = 1"
    using nz by (simp add: add.commute)
  finally show ?thesis .
qed

text \<open>
  C4. For every real \<open>z\<close> the hypothesis \<open>1 / (1 + exp (- z))\<close> lies strictly between 0
  and 1, it is exactly one half at 0, and its values at \<open>z\<close> and at \<open>- z\<close> add up to 1.
  It is a function of \<open>z\<close> alone. (Exact real arithmetic: rounding is not modelled.)
\<close>

theorem logistic_range_midpoint_symmetry:
  "logistic z = 1 / (1 + exp (- z))
   \<and> 0 < logistic z \<and> logistic z < 1
   \<and> logistic 0 = 1 / 2
   \<and> logistic z + logistic (- z) = 1"
  using logistic_pos [of z] logistic_less_one [of z] logistic_zero logistic_symmetry [of z]
  by (simp add: logistic_def)

subsection \<open>Cost and gradient\<close>

lemma dot_sum:
  "length xs = length ys \<Longrightarrow> dot xs ys = (\<Sum>l<length xs. xs ! l * ys ! l)"
  by (induction xs ys rule: list_induct2)
     (simp_all add: sum.lessThan_Suc_shift del: sum.lessThan_Suc)

text \<open>The inner product is affine in each entry of its second argument.\<close>

lemma dot_update:
  "length xs = length ys \<Longrightarrow> j < length ys \<Longrightarrow>
     dot xs (ys[j := t]) = dot xs ys + xs ! j * (t - ys ! j)"
proof (induction xs ys arbitrary: j rule: list_induct2)
  case Nil
  then show ?case by simp
next
  case (Cons x xs y ys)
  then show ?case by (cases j) (simp_all add: algebra_simps)
qed

lemma ln_logistic: "ln (logistic u) = - ln (1 + exp (- u))"
proof -
  have "0 < 1 + exp (- u)"
    by (simp add: add_pos_pos)
  then show ?thesis
    unfolding logistic_def by (simp add: ln_div)
qed

lemma ln_one_minus_logistic: "ln (1 - logistic u) = - u - ln (1 + exp (- u))"
proof -
  have p: "0 < 1 + exp (- u)"
    by (simp add: add_pos_pos)
  then have "1 - logistic u = exp (- u) / (1 + exp (- u))"
    unfolding logistic_def by (simp add: field_simps)
  then show ?thesis
    using p by (simp add: ln_div)
qed

lemma loglik_alt: "loglik y u = - (1 - y) * u - ln (1 + exp (- u))"
  unfolding loglik_def ln_logistic ln_one_minus_logistic by (simp add: algebra_simps)

text \<open>
  The derivative of one summand along a line \<open>t \<mapsto> a + b * (t - c)\<close> of scores:
  the label minus the hypothesis, times the slope.
\<close>

lemma loglik_deriv:
  "((\<lambda>t. loglik y (a + b * (t - c))) has_real_derivative
      (y - logistic (a + b * (t0 - c))) * b) (at t0)"
proof -
  have p: "0 < 1 + exp (- (a + b * (t0 - c)))"
    by (simp add: add_pos_pos)
  have "((\<lambda>t. - (1 - y) * (a + b * (t - c)) - ln (1 + exp (- (a + b * (t - c)))))
          has_real_derivative (y - logistic (a + b * (t0 - c))) * b) (at t0)"
    using p
    apply (auto intro!: derivative_eq_intros simp: logistic_def)
    apply (simp add: field_simps)
    done
  then show ?thesis
    by (simp add: loglik_alt [abs_def])
qed

lemma sum_list_map2_nth:
  "length xs = length ys \<Longrightarrow>
     sum_list (map2 f xs ys) = (\<Sum>i<length xs. f (xs ! i) (ys ! i) :: real)"
  by (induction xs ys rule: list_induct2)
     (simp_all add: sum.lessThan_Suc_shift del: sum.lessThan_Suc)

lemma cost_sum:
  assumes "length y = length X"
  shows "cost X y theta =
     - (1 / real (length X)) * (\<Sum>i<length X. loglik (y ! i) (dot (X ! i) theta))"
proof -
  have "length y = length (hypothesis X theta)"
    using assms by (simp add: hypothesis_def mat_vec_def)
  then have "sum_list (map2 (\<lambda>yi hi. yi * ln hi + (1 - yi) * ln (1 - hi)) y (hypothesis X theta))
      = (\<Sum>i<length y. y ! i * ln (hypothesis X theta ! i)
                        + (1 - y ! i) * ln (1 - hypothesis X theta ! i))"
    by (rule sum_list_map2_nth)
  also have "\<dots> = (\<Sum>i<length X. loglik (y ! i) (dot (X ! i) theta))"
    using assms by (intro sum.cong) (simp_all add: hypothesis_def mat_vec_def loglik_def)
  finally show ?thesis
    by (simp add: cost_def Let_def)
qed

lemma gradient_nth:
  assumes "length y = length X" "j < length theta"
  shows "gradient X y theta ! j =
     (1 / real (length X)) * (\<Sum>i<length X. X ! i ! j * (logistic (dot (X ! i) theta) - y ! i))"
proof -
  have l: "length (column X j) = length (vsub (hypothesis X theta) y)"
    using assms by (simp add: column_def vsub_def hypothesis_def mat_vec_def)
  have "gradient X y theta ! j =
      (1 / real (length X)) * dot (column X j) (vsub (hypothesis X theta) y)"
    using assms by (simp add: gradient_def Let_def scale_def mat_vec_def transpose_cols_def)
  also have "dot (column X j) (vsub (hypothesis X theta) y)
      = (\<Sum>i<length X. X ! i ! j * (logistic (dot (X ! i) theta) - y ! i))"
    unfolding dot_sum [OF l]
    using assms by (intro sum.cong) (simp_all add: column_def vsub_def hypothesis_def mat_vec_def)
  finally show ?thesis .
qed

lemma length_gradient: "length (gradient X y theta) = length theta"
  by (simp add: gradient_def Let_def scale_def mat_vec_def transpose_cols_def)

lemma cost_partial_derivative:
  assumes "length y = length X" "\<forall>row\<in>set X. length row = length theta" "j < length theta"
  shows "((\<lambda>t. cost X y (theta[j := t])) has_real_derivative gradient X y theta ! j)
           (at (theta ! j))"
proof -
  let ?m = "length X"
  let ?a = "\<lambda>i. dot (X ! i) theta"
  let ?b = "\<lambda>i. X ! i ! j"
  let ?c = "theta ! j"
  have upd: "dot (X ! i) (theta[j := t]) = ?a i + ?b i * (t - ?c)" if "i < ?m" for i t
    using that assms by (intro dot_update) simp_all
  have eq: "(\<lambda>t. cost X y (theta[j := t]))
      = (\<lambda>t. - (1 / real ?m) * (\<Sum>i<?m. loglik (y ! i) (?a i + ?b i * (t - ?c))))"
    by (rule ext) (simp add: cost_sum [OF assms(1)] upd)
  have "((\<lambda>t. - (1 / real ?m) * (\<Sum>i<?m. loglik (y ! i) (?a i + ?b i * (t - ?c))))
          has_real_derivative
          - (1 / real ?m) * (\<Sum>i<?m. (y ! i - logistic (?a i + ?b i * (?c - ?c))) * ?b i))
         (at ?c)"
    by (intro DERIV_cmult DERIV_sum ballI loglik_deriv)
  also have "- (1 / real ?m) * (\<Sum>i<?m. (y ! i - logistic (?a i + ?b i * (?c - ?c))) * ?b i)
      = gradient X y theta ! j"
    unfolding gradient_nth [OF assms(1,3)]
    by (simp add: sum_distrib_left sum_negf [symmetric] algebra_simps del: sum_negf)
  finally show ?thesis
    unfolding eq .
qed

text \<open>
  C3. For an \<open>m\<close> by \<open>k\<close> matrix \<open>X\<close> with at least one row, labels \<open>y\<close> of length \<open>m\<close>
  and \<open>theta\<close> of length \<open>k\<close>, the cost function returns
  \<open>J = - (1 / m) * (\<Sum>i<m. y\<^sub>i * ln h\<^sub>i + (1 - y\<^sub>i) * ln (1 - h\<^sub>i))\<close> with
  \<open>h\<^sub>i = logistic (X\<^sub>i \<bullet> theta)\<close>, and a gradient of length \<open>k\<close> whose entry \<open>j\<close> is
  \<open>(1 / m) * (\<Sum>i<m. X\<^sub>i\<^sub>j * (h\<^sub>i - y\<^sub>i))\<close>, the entry \<open>j\<close> of \<open>(1 / m) * X\<^sup>T (h - y)\<close>. That entry
  is the partial derivative of \<open>J\<close> with respect to \<open>theta\<^sub>j\<close> at \<open>theta\<close>. The labels may
  be any reals, 0 and 1 among them. (With no row at all the formula divides by zero;
  the statement leaves that case out.)
\<close>

theorem cost_function_value_and_gradient:
  assumes "X \<noteq> []"
    and "length y = length X"
    and "\<forall>row\<in>set X. length row = length theta"
    and "j < length theta"
  shows "fst (cost_function X y theta) =
           - (1 / real (length X)) *
             (\<Sum>i<length X. y ! i * ln (logistic (dot (X ! i) theta))
                            + (1 - y ! i) * ln (1 - logistic (dot (X ! i) theta)))
    \<and> (\<forall>i<length X. dot (X ! i) theta = (\<Sum>l<length theta. X ! i ! l * theta ! l))
    \<and> length (snd (cost_function X y theta)) = length theta
    \<and> snd (cost_function X y theta) ! j =
           (1 / real (length X)) *
             (\<Sum>i<length X. X ! i ! j * (logistic (dot (X ! i) theta) - y ! i))
    \<and> ((\<lambda>t. fst (cost_function X y (theta[j := t])))
          has_real_derivative snd (cost_function X y theta) ! j) (at (theta ! j))"
proof (intro conjI)
  show "fst (cost_function X y theta) =
           - (1 / real (length X)) *
             (\<Sum>i<length X. y ! i * ln (logistic (dot (X ! i) theta))
                            + (1 - y ! i) * ln (1 - logistic (dot (X ! i) theta)))"
    using cost_sum [OF assms(2), of theta] by (simp add: cost_function_def loglik_def)
  show "\<forall>i<length X. dot (X ! i) theta = (\<Sum>l<length theta. X ! i ! l * theta ! l)"
  proof (intro allI impI)
    fix i assume "i < length X"
    then have "length (X ! i) = length theta"
      using assms(3) by simp
    then show "dot (X ! i) theta = (\<Sum>l<length theta. X ! i ! l * theta ! l)"
      using dot_sum [of "X ! i" theta] by simp
  qed
  show "length (snd (cost_function X y theta)) = length theta"
    by (simp add: cost_function_def length_gradient)
  show "snd (cost_function X y theta) ! j =
           (1 / real (length X)) *
             (\<Sum>i<length X. X ! i ! j * (logistic (dot (X ! i) theta) - y ! i))"
    using gradient_nth [OF assms(2,4), of ] by (simp add: cost_function_def)
  show "((\<lambda>t. fst (cost_function X y (theta[j := t])))
          has_real_derivative snd (cost_function X y theta) ! j) (at (theta ! j))"
    using cost_partial_derivative [OF assms(2,3,4)] by (simp add: cost_function_def)
qed

theorem cost_function_value_and_gradient_witness:
  "[[1, 2 :: real]] \<noteq> []
   \<and> length [1 :: real] = length [[1, 2 :: real]]
   \<and> (0 :: nat) < length [0, 0 :: real]
   \<and> fst (cost_function [[1, 2]] [1] [0, 0]) = ln 2
   \<and> snd (cost_function [[1, 2]] [1] [0, 0]) ! 0 = - 1 / 2
   \<and> ((\<lambda>t. fst (cost_function [[1, 2]] [1] [t, 0])) has_real_derivative - 1 / 2) (at 0)"
  using cost_function_value_and_gradient [of "[[1, 2]]" "[1]" "[0, 0]" 0]
  by (auto simp: logistic_def ln_div)

subsection \<open>The optimizer\<close>

lemma map_upt_Suc_shift: "map f [0..<Suc n] = f 0 # map (\<lambda>i. f (Suc i)) [0..<n]"
proof -
  have "[0..<Suc n] = 0 # map Suc [0..<n]"
    by (simp add: upt_conv_Cons map_Suc_upt del: upt_Suc)
  then show ?thesis
    by (simp add: comp_def del: upt_Suc)
qed

text \<open>
  The loop with any history so far: after \<open>n\<close> rounds \<open>theta\<close> has been updated \<open>n\<close>
  times and the history has grown by the \<open>n\<close> costs met on the way.
\<close>

lemma gd_loop_unfold:
  "gd_loop X y alpha n theta hist =
     (((\<lambda>th. vsub th (scale alpha (snd (cost_function X y th)))) ^^ n) theta,
      hist @ map (\<lambda>i. fst (cost_function X y
                 (((\<lambda>th. vsub th (scale alpha (snd (cost_function X y th)))) ^^ i) theta)))
               [0..<n])"
proof (induction n arbitrary: theta hist)
  case 0
  then show ?case by simp
next
  case (Suc n)
  show ?case
    by (simp add: Suc.IH funpow_Suc_right map_upt_Suc_shift split: prod.split
          del: upt_Suc funpow.simps)
qed

lemma fst_gradient_descent:
  "fst (gradient_descent X y theta alpha i) =
     ((\<lambda>th. vsub th (scale alpha (gradient X y th))) ^^ i) theta"
  by (simp add: gradient_descent_def gd_loop_unfold cost_function_def)

lemma snd_gradient_descent:
  "snd (gradient_descent X y theta alpha T) =
     map (\<lambda>i. cost X y (fst (gradient_descent X y theta alpha i))) [0..<T]"
  by (simp add: gradient_descent_def gd_loop_unfold cost_function_def)

text \<open>The update, entry by entry.\<close>

lemma vsub_scale_nth:
  "length g = length th \<Longrightarrow> j < length th \<Longrightarrow>
     vsub th (scale alpha g) ! j = th ! j - alpha * g ! j"
  by (simp add: vsub_def scale_def)

lemma length_vsub_scale:
  "length g = length th \<Longrightarrow> length (vsub th (scale alpha g)) = length th"
  by (simp add: vsub_def scale_def)

lemma gradient_descent_length_theta:
  "length (fst (gradient_descent X y theta alpha i)) = length theta"
  unfolding fst_gradient_descent
  by (induction i) (simp_all add: length_vsub_scale length_gradient)

text \<open>
  C2. \<open>gradient_descent\<close> with iteration count \<open>T\<close> starts from the given \<open>theta\<close> and
  makes \<open>T\<close> iterations. Iteration \<open>i\<close> replaces the current \<open>theta\<close> by
  \<open>theta - alpha * gradient X y theta\<close>, which is, entry by entry,
  \<open>theta\<^sub>j - alpha * (gradient X y theta)\<^sub>j\<close>; the length of \<open>theta\<close> never changes. The
  cost history holds, in iteration order, the cost at the \<open>theta\<close> each iteration started
  from (the pre-update choice, every iteration), and its length is \<open>T\<close>. What is
  returned for \<open>T\<close> iterations is the \<open>theta\<close> after iteration \<open>T\<close> with that history.
\<close>

theorem gradient_descent_iterates:
  "fst (gradient_descent X y theta alpha 0) = theta
   \<and> (\<forall>i. length (fst (gradient_descent X y theta alpha i)) = length theta
        \<and> length (gradient X y (fst (gradient_descent X y theta alpha i))) = length theta
        \<and> fst (gradient_descent X y theta alpha (Suc i)) =
            vsub (fst (gradient_descent X y theta alpha i))
              (scale alpha (gradient X y (fst (gradient_descent X y theta alpha i))))
        \<and> (\<forall>j<length theta.
              fst (gradient_descent X y theta alpha (Suc i)) ! j =
                fst (gradient_descent X y theta alpha i) ! j
                - alpha * gradient X y (fst (gradient_descent X y theta alpha i)) ! j))
   \<and> snd (gradient_descent X y theta alpha T) =
        map (\<lambda>i. cost X y (fst (gradient_descent X y theta alpha i))) [0..<T]
   \<and> length (snd (gradient_descent X y theta alpha T)) = T
   \<and> (\<forall>i\<le>T. snd (gradient_descent X y theta alpha i)
              = take i (snd (gradient_descent X y theta alpha T)))"
proof (intro conjI allI impI)
  show "fst (gradient_descent X y theta alpha 0) = theta"
    by (simp add: fst_gradient_descent)
next
  fix i
  show "length (fst (gradient_descent X y theta alpha i)) = length theta"
    by (rule gradient_descent_length_theta)
next
  fix i
  show "length (gradient X y (fst (gradient_descent X y theta alpha i))) = length theta"
    by (simp add: length_gradient gradient_descent_length_theta)
next
  fix i
  show "fst (gradient_descent X y theta alpha (Suc i)) =
            vsub (fst (gradient_descent X y theta alpha i))
              (scale alpha (gradient X y (fst (gradient_descent X y theta alpha i))))"
    by (simp add: fst_gradient_descent)
next
  fix i j assume j: "j < length theta"
  let ?th = "fst (gradient_descent X y theta alpha i)"
  have "fst (gradient_descent X y theta alpha (Suc i))
      = vsub ?th (scale alpha (gradient X y ?th))"
    by (simp add: fst_gradient_descent)
  moreover have "length (gradient X y ?th) = length ?th"
    by (rule length_gradient)
  moreover have "j < length ?th"
    using j by (simp add: gradient_descent_length_theta)
  ultimately show "fst (gradient_descent X y theta alpha (Suc i)) ! j =
                ?th ! j - alpha * gradient X y ?th ! j"
    by (simp add: vsub_scale_nth)
next
  show "snd (gradient_descent X y theta alpha T) =
        map (\<lambda>i. cost X y (fst (gradient_descent X y theta alpha i))) [0..<T]"
    by (rule snd_gradient_descent)
next
  show "length (snd (gradient_descent X y theta alpha T)) = T"
    by (simp add: snd_gradient_descent)
next
  fix i assume "i \<le> T"
  then show "snd (gradient_descent X y theta alpha i)
              = take i (snd (gradient_descent X y theta alpha T))"
    by (simp add: snd_gradient_descent take_map min_def)
qed

theorem gradient_descent_iterates_witness:
  "(0 :: nat) < length [0, 0 :: real]
   \<and> fst (gradient_descent [[1, 2]] [1] [0, 0] 1 0) = [0, 0]
   \<and> gradient [[1, 2]] [1] [0, 0] = [- 1 / 2, - 1]
   \<and> fst (gradient_descent [[1, 2]] [1] [0, 0] 1 1) ! 0 = 0 - 1 * (- 1 / 2)
   \<and> fst (gradient_descent [[1, 2]] [1] [0, 0] 1 1) ! 1 = 0 - 1 * (- 1)
   \<and> snd (gradient_descent [[1, 2]] [1] [0, 0] 1 1) = [ln 2]"
proof -
  note t = gradient_descent_iterates [of "[[1, 2]]" "[1]" "[0, 0]" 1 1]
  note step = t [THEN conjunct2, THEN conjunct1, rule_format, of 0, THEN conjunct2,
    THEN conjunct2, THEN conjunct2, rule_format]
  have z: "fst (gradient_descent [[1, 2]] [1] [0, 0] 1 0) = [0, 0]"
    using t by (rule conjunct1)
  have g: "gradient [[1, 2]] [1] [0, 0] = [- 1 / 2, - 1]"
    by (simp add: gradient_def hypothesis_def mat_vec_def transpose_cols_def
          column_def vsub_def scale_def logistic_def Let_def upt_rec [of 0 2] upt_rec [of 1 2])
  have c: "cost [[1, 2]] [1] [0, 0] = ln 2"
    by (simp add: cost_def hypothesis_def mat_vec_def logistic_def ln_div)
  have u0: "fst (gradient_descent [[1, 2]] [1] [0, 0] 1 1) ! 0 = 0 - 1 * (- 1 / 2)"
    using step [of 0] by (simp add: z g)
  have u1: "fst (gradient_descent [[1, 2]] [1] [0, 0] 1 1) ! 1 = 0 - 1 * (- 1)"
    using step [of 1] by (simp add: z g)
  have h: "snd (gradient_descent [[1, 2]] [1] [0, 0] 1 1) = [ln 2]"
    using t [THEN conjunct2, THEN conjunct2, THEN conjunct1] by (simp add: z c)
  show ?thesis
    using z g u0 u1 h by simp
qed

subsection \<open>Training\<close>

lemma find_length:
  "map_option length (find (\<lambda>row. length row \<noteq> k) X) = find (\<lambda>n. n \<noteq> k) (map length X)"
  by (induction X) auto

lemma train_shape_only:
  assumes "length X \<noteq> length y \<or> (\<exists>row \<in> set X. length row \<noteq> length theta)"
    and "map length X' = map length X" "length y' = length y" "length theta' = length theta"
  shows "train X' y' theta' alpha' iters' = train X y theta alpha iters"
proof (cases "length X \<noteq> length y")
  case True
  moreover have "length X' = length X"
    using assms(2) by (metis length_map)
  ultimately show ?thesis
    using assms by (simp add: train_def)
next
  case False
  then have ex: "\<exists>row \<in> set X. length row \<noteq> length theta"
    using assms(1) by blast
  have lx: "length X' = length X"
    using assms(2) by (metis length_map)
  have "map_option length (find (\<lambda>row. length row \<noteq> length theta') X')
      = map_option length (find (\<lambda>row. length row \<noteq> length theta) X)"
    by (simp add: find_length assms)
  moreover obtain r where "find (\<lambda>row. length row \<noteq> length theta) X = Some r"
    using ex by (cases "find (\<lambda>row. length row \<noteq> length theta) X") (auto simp: find_None_iff)
  ultimately show ?thesis
    using False lx assms(3,4) by (auto simp: train_def split: option.splits)
qed

text \<open>
  C8. When the row count of \<open>X\<close> is not the length of \<open>y\<close>, or a row of \<open>X\<close> has not
  the length of \<open>theta\<close>, \<open>train\<close> returns a dimension-mismatch error that carries the two
  numbers that differ, and no \<open>theta\<close> or cost history. The error is decided by the
  dimensions alone: the entries of \<open>X\<close>, \<open>y\<close> and \<open>theta\<close>, the learning rate and the
  iteration count have no part in it, so neither cost nor gradient has been computed.
\<close>

theorem train_rejects_shape_mismatch:
  assumes "length X \<noteq> length y \<or> (\<exists>row \<in> set X. length row \<noteq> length theta)"
  shows "(\<exists>what a b. train X y theta alpha iters = Inl (DimensionMismatch what a b) \<and> a \<noteq> b)
    \<and> (\<forall>X' y' theta' alpha' iters'.
          map length X' = map length X \<and> length y' = length y \<and> length theta' = length theta
          \<longrightarrow> train X' y' theta' alpha' iters' = train X y theta alpha iters)"
proof
  show "\<exists>what a b. train X y theta alpha iters = Inl (DimensionMismatch what a b) \<and> a \<noteq> b"
  proof (cases "length X \<noteq> length y")
    case True
    then show ?thesis by (simp add: train_def)
  next
    case False
    then have "\<exists>row \<in> set X. length row \<noteq> length theta"
      using assms by blast
    then obtain r where r: "find (\<lambda>row. length row \<noteq> length theta) X = Some r"
      by (cases "find (\<lambda>row. length row \<noteq> length theta) X") (auto simp: find_None_iff)
    then have "length r \<noteq> length theta"
      by (auto simp: find_Some_iff)
    then show ?thesis
      using False r by (simp add: train_def)
  qed
  show "\<forall>X' y' theta' alpha' iters'.
          map length X' = map length X \<and> length y' = length y \<and> length theta' = length theta
          \<longrightarrow> train X' y' theta' alpha' iters' = train X y theta alpha iters"
    using train_shape_only [OF assms] by blast
qed

theorem train_rejects_shape_mismatch_witness:
  "train [[1, 2], [3, 4]] [1] [0, 0] (1 / 200) 300
     = Inl (DimensionMismatch ''rows of X, length of y'' 2 1)
   \<and> train [[1, 2], [3]] [1, 0] [0, 0] (1 / 200) 300
     = Inl (DimensionMismatch ''columns of X, length of theta'' 1 2)
   \<and> train [[5, 6], [7]] [0, 0] [1, 1] 0 0 = train [[1, 2], [3]] [1, 0] [0, 0] (1 / 200) 300"
  using train_rejects_shape_mismatch [of "[[1, 2], [3]]" "[1, 0]" "[0, 0]" "1 / 200" 300]
  by (simp add: train_def)

subsection \<open>The decision rule\<close>

lemma np_round_unit:
  assumes "0 < p" "p < 1"
  shows "np_round p = (if 1 / 2 < p then 1 else 0)"
proof -
  have f: "\<lfloor>p\<rfloor> = 0"
    using assms by (simp add: floor_eq_iff)
  show ?thesis
    unfolding np_round_def Let_def f by auto
qed

text \<open>
  C1, as the notebook has it. The prediction computes \<open>p = logistic (x \<bullet> theta)\<close> and
  gives the spam label if and only if \<open>p\<close> is greater than one half. At \<open>p\<close> exactly one
  half the label is ham: \<^verbatim>\<open>np.round\<close> rounds a half to the even neighbour, which is 0.
  The same holds for every row of the test set. A feature vector whose length is not
  that of \<open>theta\<close> raises \<^verbatim>\<open>ValueError\<close>.
\<close>

theorem predict_spam_iff_above_half:
  "predict_message x theta =
     (if length x = length theta
      then Inr (if 1 / 2 < logistic (dot x theta) then ''spam'' else ''ham'')
      else Inl ValueError)
   \<and> predict_test X theta =
     (if list_all (\<lambda>row. length row = length theta) X
      then Inr (map (\<lambda>row. if 1 / 2 < logistic (dot row theta) then 1 else 0) X)
      else Inl ValueError)"
proof
  show "predict_message x theta =
     (if length x = length theta
      then Inr (if 1 / 2 < logistic (dot x theta) then ''spam'' else ''ham'')
      else Inl ValueError)"
    unfolding predict_message_def np_dot_def Let_def
    using np_round_unit [OF logistic_pos logistic_less_one, of "dot x theta"]
    by (auto simp: py_int_def)
  show "predict_test X theta =
     (if list_all (\<lambda>row. length row = length theta) X
      then Inr (map (\<lambda>row. if 1 / 2 < logistic (dot row theta) then 1 else 0) X)
      else Inl ValueError)"
    unfolding predict_test_def np_dot_mv_def mat_vec_def
    using np_round_unit [OF logistic_pos logistic_less_one]
    by auto
qed

text \<open>
  The claim as the specification words it (spam whenever \<open>p \<ge> 0.5\<close>) fails where \<open>p\<close> is
  exactly one half: for \<open>x = [1, 2]\<close> and \<open>theta = [2, -1]\<close> the score is 0, \<open>p\<close> is one
  half, and the message is labelled ham.
\<close>

theorem predict_half_is_ham:
  "length [1, 2 :: real] = length [2, - 1 :: real]
   \<and> 1 / 2 \<le> logistic (dot [1, 2] [2, - 1])
   \<and> logistic (dot [1, 2] [2, - 1]) = 1 / 2
   \<and> predict_message [1, 2] [2, - 1] = Inr ''ham''
   \<and> predict_message [1, 2] [2, - 1] \<noteq> Inr ''spam''"
  by (simp add: predict_message_def np_dot_def logistic_def np_round_def py_int_def)

subsection \<open>The features of a single message\<close>

lemma count_vector_oov:
  "w \<notin> set vocab \<Longrightarrow> count_vector vocab (toks1 @ [w] @ toks2) = count_vector vocab (toks1 @ toks2)"
  by (auto simp: count_vector_def)

lemma count_vector_all_oov:
  "set toks \<inter> set vocab = {} \<Longrightarrow> count_vector vocab toks = replicate (length vocab) 0"
  by (auto simp: count_vector_def map_replicate_const [symmetric] count_list_0_iff
        intro!: map_idI nth_equalityI)

text \<open>
  C10. For every message the feature vector has \<open>n + 1\<close> entries, \<open>n\<close> the size of the
  dictionary: entry 0 is the constant 1, entry \<open>i + 1\<close> counts the occurrences of the
  \<open>i\<close>-th dictionary token among the message's tokens. A token outside the dictionary
  changes no entry, and a message without dictionary tokens has zeros behind the 1.
  The vector is as long as every row of the design matrix, hence as long as
  \<^verbatim>\<open>theta = np.zeros(n)\<close> of cell 2 and as the trained \<open>theta\<close> that the modelled
  \<open>gradient_descent\<close> returns from it, so the prediction on it raises no error.
\<close>

theorem extract_features_bias_and_counts:
  "length (extract_features tbl v msg) = length (vocabulary v) + 1
   \<and> extract_features tbl v msg ! 0 = 1
   \<and> (\<forall>i<length (vocabulary v).
         extract_features tbl v msg ! (i + 1)
           = int (count_list (tokenize v (preprocess tbl msg)) (vocabulary v ! i)))
   \<and> (\<forall>w toks1 toks2. w \<notin> set (vocabulary v) \<longrightarrow>
         count_vector (vocabulary v) (toks1 @ [w] @ toks2)
           = count_vector (vocabulary v) (toks1 @ toks2))
   \<and> (set (tokenize v (preprocess tbl msg)) \<inter> set (vocabulary v) = {} \<longrightarrow>
         extract_features tbl v msg = 1 # replicate (length (vocabulary v)) 0)
   \<and> (\<forall>row\<in>set (design_matrix tbl v docs). length row = length (extract_features tbl v msg))
   \<and> length (fst (gradient_descent X y (replicate (length (vocabulary v) + 1) 0) alpha iters))
        = length (extract_features tbl v msg)
   \<and> (\<exists>label. predict_message (map real_of_int (extract_features tbl v msg))
                  (fst (gradient_descent X y (replicate (length (vocabulary v) + 1) 0) alpha iters))
                = Inr label)"
proof (intro conjI)
  show "length (extract_features tbl v msg) = length (vocabulary v) + 1"
    by (simp add: extract_features_def np_insert0_def transform_def count_vector_def)
  show "extract_features tbl v msg ! 0 = 1"
    by (simp add: extract_features_def np_insert0_def)
  show "\<forall>i<length (vocabulary v).
         extract_features tbl v msg ! (i + 1)
           = int (count_list (tokenize v (preprocess tbl msg)) (vocabulary v ! i))"
    by (simp add: extract_features_def np_insert0_def transform_def count_vector_def)
  show "\<forall>w toks1 toks2. w \<notin> set (vocabulary v) \<longrightarrow>
         count_vector (vocabulary v) (toks1 @ [w] @ toks2)
           = count_vector (vocabulary v) (toks1 @ toks2)"
    using count_vector_oov by blast
  show "set (tokenize v (preprocess tbl msg)) \<inter> set (vocabulary v) = {} \<longrightarrow>
         extract_features tbl v msg = 1 # replicate (length (vocabulary v)) 0"
    by (simp add: extract_features_def np_insert0_def transform_def count_vector_all_oov)
  show "\<forall>row\<in>set (design_matrix tbl v docs). length row = length (extract_features tbl v msg)"
    by (auto simp: design_matrix_def extract_features_def np_insert0_def transform_def
          count_vector_def)
  show l: "length (fst (gradient_descent X y (replicate (length (vocabulary v) + 1) 0) alpha iters))
        = length (extract_features tbl v msg)"
    by (simp add: gradient_descent_length_theta extract_features_def np_insert0_def
          transform_def count_vector_def)
  show "\<exists>label. predict_message (map real_of_int (extract_features tbl v msg))
                  (fst (gradient_descent X y (replicate (length (vocabulary v) + 1) 0) alpha iters))
                = Inr label"
    using l by (simp add: predict_message_def np_dot_def Let_def)
qed

theorem extract_features_bias_and_counts_witness:
  "extract_features identity_lowering
       \<lparr>tokenize = (\<lambda>d. [d, d]), vocabulary = [py ''hi'', py ''yo'']\<rparr> (py ''HI'') = [1, 2, 0]
   \<and> (0 :: nat) < length [py ''hi'', py ''yo'']
   \<and> py ''zz'' \<notin> set [py ''hi'', py ''yo'']
   \<and> count_vector [py ''hi'', py ''yo''] ([py ''hi''] @ [py ''zz''] @ [py ''yo''])
       = count_vector [py ''hi'', py ''yo''] ([py ''hi''] @ [py ''yo''])
   \<and> design_matrix identity_lowering
       \<lparr>tokenize = (\<lambda>d. [d, d]), vocabulary = [py ''hi'', py ''yo'']\<rparr> [py ''Yo'']
       = [[1, 0, 2]]"
proof -
  let ?v = "\<lparr>tokenize = (\<lambda>d. [d, d]), vocabulary = [py ''hi'', py ''yo'']\<rparr>"
  have p: "preprocess identity_lowering (py ''HI'') = py ''hi''"
    "preprocess identity_lowering (py ''Yo'') = py ''yo''"
    by code_simp+
  have ne: "py ''hi'' \<noteq> py ''yo''" "py ''yo'' \<noteq> py ''hi''"
    "py ''zz'' \<noteq> py ''hi''" "py ''zz'' \<noteq> py ''yo''"
    by (simp_all add: py_def)
  have e: "extract_features identity_lowering ?v (py ''HI'') = [1, 2, 0]"
    by (simp add: extract_features_def np_insert0_def transform_def count_vector_def p ne)
  have d: "design_matrix identity_lowering ?v [py ''Yo''] = [[1, 0, 2]]"
    by (simp add: design_matrix_def transform_def count_vector_def p ne)
  have o: "py ''zz'' \<notin> set (vocabulary ?v)"
    by (simp add: ne)
  note t = extract_features_bias_and_counts
    [of identity_lowering ?v "py ''HI''" "[py ''Yo'']" "[]" "[]" 0 0]
  note oov = t [THEN conjunct2, THEN conjunct2, THEN conjunct2, THEN conjunct1, rule_format,
    OF o, of "[py ''hi'']" "[py ''yo'']"]
  have c: "count_vector [py ''hi'', py ''yo''] ([py ''hi''] @ [py ''zz''] @ [py ''yo''])
       = count_vector [py ''hi'', py ''yo''] ([py ''hi''] @ [py ''yo''])"
    using oov by simp
  have l: "(0 :: nat) < length [py ''hi'', py ''yo'']"
    by simp
  have o': "py ''zz'' \<notin> set [py ''hi'', py ''yo'']"
    using o by simp
  show ?thesis
    by (intro conjI e l o' c d)
qed

end
